theory Spec2Isabelle
  imports Main "HOL-Library.AList"
begin

section \<open>JavaScript values\<close>

text \<open>
  The values that flow through \<^verbatim>\<open>iqlFunctions.js\<close>: spreadsheet arguments, parsed JSON
  responses of the Insight REST API, and whatever the memoized function returns.
  Numbers are the integer-valued ones (timestamps of \<^verbatim>\<open>Date.now()\<close>, sizes, ids); fractions,
  \<^verbatim>\<open>NaN\<close> and the infinities are outside this model. Strings are ASCII, one \<open>char\<close> for
  each character. An object is the list of its own properties in creation order, with
  pairwise distinct keys (what \<^verbatim>\<open>JSON.parse\<close> builds).
\<close>

datatype jsval =
    Undefined
  | Null
  | Bool bool
  | Num int
  | Str string
  | Arr "jsval list"
  | Obj "(string \<times> jsval) list"

datatype error = TypeError | SyntaxError | FetchError

text \<open>An argument of a configuration call is a function object or a data value.\<close>

datatype js_arg = Function "jsval list \<Rightarrow> error + jsval" | Data jsval

text \<open>\<^verbatim>\<open>ToBoolean\<close>, which \<^verbatim>\<open>||\<close> and \<^verbatim>\<open>if\<close> apply to their operand.\<close>

fun truthy :: "jsval \<Rightarrow> bool" where
  "truthy Undefined = False"
| "truthy Null = False"
| "truthy (Bool b) = b"
| "truthy (Num n) = (n \<noteq> 0)"
| "truthy (Str s) = (s \<noteq> [])"
| "truthy (Arr xs) = True"
| "truthy (Obj kvs) = True"

fun typeof :: "jsval \<Rightarrow> string" where
  "typeof Undefined = ''undefined''"
| "typeof Null = ''object''"
| "typeof (Bool b) = ''boolean''"
| "typeof (Num n) = ''number''"
| "typeof (Str s) = ''string''"
| "typeof (Arr xs) = ''object''"
| "typeof (Obj kvs) = ''object''"

fun typeof_arg :: "js_arg \<Rightarrow> string" where
  "typeof_arg (Function f) = ''function''"
| "typeof_arg (Data v) = typeof v"

text \<open>The number held by an argument whose \<^verbatim>\<open>typeof\<close> is \<^verbatim>\<open>'number'\<close>.\<close>

fun number_of :: "js_arg \<Rightarrow> int" where
  "number_of (Data (Num n)) = n"
| "number_of _ = 0"

section \<open>The memoizing cache\<close>

text \<open>
  One cache entry is the object \<^verbatim>\<open>{ value, expire: Date.now() }\<close>: the cached value and the
  time of insertion. Nothing else is stored with it.
\<close>

record entry =
  entry_value :: jsval
  entry_expire :: int

text \<open>
  \<^verbatim>\<open>_cache\<close> is a JavaScript \<^verbatim>\<open>Map\<close>: keys in insertion order. It is an association list
  here; \<^verbatim>\<open>Map.prototype.set\<close> is \<^const>\<open>AList.update\<close> (an existing key keeps its place, a
  new one goes to the end), \<^verbatim>\<open>delete\<close> is \<^const>\<open>AList.delete\<close>, \<^verbatim>\<open>get\<close> is \<^const>\<open>map_of\<close>
  and \<^verbatim>\<open>size\<close> is \<^const>\<open>length\<close>.
\<close>

type_synonym cache = "(string \<times> entry) list"

text \<open>What the script does to the outside, in order of occurrence.\<close>

datatype event =
    ServiceGet
  | ServicePut cache
  | FnCall "jsval list"
  | LoggerLog string

text \<open>
  The variables that the closure \<^verbatim>\<open>memoized\<close> captures (\<^verbatim>\<open>_limit\<close>, \<^verbatim>\<open>_time\<close>,
  \<^verbatim>\<open>_cache\<close>), the blob that the document cache of \<^verbatim>\<open>CacheService\<close> holds under the key
  \<^verbatim>\<open>"_cache"\<close> (\<open>None\<close>: no such key), and the events so far. The blob is kept as the
  entry list whose JSON text is stored. The document cache is shared by every wrapper of
  the document: a put of another wrapper shows as a change of \<open>service\<close>. The service
  is taken to accept every put and to keep the blob; its limits on size and lifetime are
  not modelled.
\<close>

record memo =
  c_limit :: int
  c_time :: int
  c_cache :: cache
  service :: "cache option"
  trace :: "event list"

text \<open>
  \<^verbatim>\<open>JSON.parse(JSON.stringify(v))\<close> for a value \<open>v\<close> held in a property: an
  \<^verbatim>\<open>undefined\<close> array element comes back as \<^verbatim>\<open>null\<close>, a property whose value is
  \<^verbatim>\<open>undefined\<close> is dropped (reading it gives \<^verbatim>\<open>undefined\<close> again).
\<close>

fun JSON_roundtrip :: "jsval \<Rightarrow> jsval" where
  "JSON_roundtrip (Arr xs) =
     Arr (map (\<lambda>x. if x = Undefined then Null else JSON_roundtrip x) xs)"
| "JSON_roundtrip (Obj kvs) =
     Obj (map (\<lambda>kv. (fst kv, JSON_roundtrip (snd kv))) (filter (\<lambda>kv. snd kv \<noteq> Undefined) kvs))"
| "JSON_roundtrip v = v"

text \<open>
  \<^verbatim>\<open>new Map(JSON.parse(cache_service.get("_cache")))\<close>: a missing key gives \<^verbatim>\<open>null\<close>,
  \<^verbatim>\<open>JSON.parse(null)\<close> is \<^verbatim>\<open>null\<close> and \<^verbatim>\<open>new Map(null)\<close> is empty; otherwise the pairs
  are set one after the other.
\<close>

definition Map_of_blob :: "cache option \<Rightarrow> cache" where
  "Map_of_blob b =
     (case b of
        None \<Rightarrow> []
      | Some pairs \<Rightarrow>
          fold (\<lambda>kv m. AList.update (fst kv)
                  \<lparr>entry_value = JSON_roundtrip (entry_value (snd kv)),
                   entry_expire = entry_expire (snd kv)\<rparr> m) pairs [])"

text \<open>
  \<^verbatim>\<open>cacheServicePut\<close>: its parameter is unused, the closure's \<^verbatim>\<open>_cache\<close> is written.
  (\<^verbatim>\<open>cacheServiceGet\<close> is never called.)
\<close>

definition cacheServicePut :: "memo \<Rightarrow> memo" where
  "cacheServicePut s =
     s\<lparr>service := Some (c_cache s), trace := trace s @ [ServicePut (c_cache s)]\<rparr>"

text \<open>\<^verbatim>\<open>remove(key)\<close>\<close>

definition remove :: "string \<Rightarrow> memo \<Rightarrow> memo" where
  "remove key s = cacheServicePut (s\<lparr>c_cache := AList.delete key (c_cache s)\<rparr>)"

text \<open>
  \<^verbatim>\<open>get(key)\<close>, with \<open>now\<close> the reading of \<^verbatim>\<open>Date.now()\<close>. The result is the returned value
  and the state after the call.
\<close>

definition get :: "int \<Rightarrow> string \<Rightarrow> memo \<Rightarrow> jsval \<times> memo" where
  "get now key s =
     (case map_of (c_cache s) key of
        None \<Rightarrow> (Undefined, s)
      | Some entry \<Rightarrow>
          if entry_expire entry + c_time s > now
          then (entry_value entry, s\<lparr>trace := trace s @ [LoggerLog ''Using memoized function.'']\<rparr>)
          else (Undefined, remove key s))"

text \<open>
  The \<^verbatim>\<open>while(true)\<close> loop of \<^verbatim>\<open>set\<close>. The iterator \<^verbatim>\<open>entries\<close> is live and every entry it
  has passed was removed, so \<^verbatim>\<open>entries.next()\<close> is the first entry still in the map, and
  is done when the map is empty.
\<close>

function set_loop :: "int \<Rightarrow> memo \<Rightarrow> memo" where
  "set_loop date s =
     (case c_cache s of
        [] \<Rightarrow> s
      | kv # rest \<Rightarrow>
          if int (length (c_cache s)) > c_limit s \<or> entry_expire (snd kv) + c_time s < date
          then set_loop date (remove (fst kv) s)
          else s)"
  by pat_completeness auto
termination
proof (relation "measure (\<lambda>(date, s). length (c_cache s))")
  show "wf (measure (\<lambda>(date, s). length (c_cache s)))" by simp
next
  fix date :: int and s :: memo and kv rest
  assume c: "c_cache s = kv # rest"
  have "length (AList.delete (fst kv) (kv # rest)) \<le> length rest"
    by (cases kv) (simp add: AList.delete_eq le_imp_less_Suc)
  then show "((date, remove (fst kv) s), (date, s)) \<in> measure (\<lambda>(date, s). length (c_cache s))"
    by (simp add: remove_def cacheServicePut_def c)
qed

declare set_loop.simps [simp del]

text \<open>
  \<^verbatim>\<open>set(key, value)\<close> (the name \<open>set\<close> is taken by the elements of a list): \<open>date\<close> is the
  reading of \<^verbatim>\<open>Date.now()\<close> before the loop, \<open>now\<close> the one taken for the new entry.
\<close>

definition set_entry :: "int \<Rightarrow> int \<Rightarrow> string \<Rightarrow> jsval \<Rightarrow> memo \<Rightarrow> jsval \<times> memo" where
  "set_entry date now key v s =
     (let s1 = set_loop date s;
          s2 = s1\<lparr>c_cache := AList.update key \<lparr>entry_value = v, entry_expire = now\<rparr> (c_cache s1)\<rparr>
      in (v, cacheServicePut s2))"

text \<open>
  \<^verbatim>\<open>memoized(...args)\<close>: \<^verbatim>\<open>get(key) || set(key, fn.apply(this, args))\<close>. The serializer
  \<^verbatim>\<open>JSON.stringify\<close> is the parameter \<open>stringify\<close>; \<open>t_get\<close>, \<open>t_date\<close> and \<open>t_ins\<close> are the
  three readings of the clock (in \<^verbatim>\<open>get\<close>, and twice in \<^verbatim>\<open>set\<close>). An exception of \<open>fn\<close>
  leaves \<^verbatim>\<open>memoized\<close> before \<^verbatim>\<open>set\<close> is called.
\<close>

definition memoized ::
  "(jsval list \<Rightarrow> string) \<Rightarrow> (jsval list \<Rightarrow> error + jsval) \<Rightarrow> jsval list \<Rightarrow>
     int \<Rightarrow> int \<Rightarrow> int \<Rightarrow> memo \<Rightarrow> (error + jsval) \<times> memo" where
  "memoized stringify fn args t_get t_date t_ins s =
     (let key = stringify args;
          (r, s1) = get t_get key s
      in if truthy r then (Inr r, s1)
         else
           (let s2 = s1\<lparr>trace := trace s1 @ [FnCall args]\<rparr>
            in case fn args of
                 Inl e \<Rightarrow> (Inl e, s2)
               | Inr v \<Rightarrow> (case set_entry t_date t_ins key v s2 of (v', s3) \<Rightarrow> (Inr v', s3))))"

text \<open>\<^verbatim>\<open>memoized.limit\<close>, \<^verbatim>\<open>memoized.expire\<close>, \<^verbatim>\<open>memoized.flush\<close>\<close>

definition limit :: "js_arg \<Rightarrow> memo \<Rightarrow> (error + unit) \<times> memo" where
  "limit x s =
     (if typeof_arg x \<noteq> ''number'' then (Inl TypeError, s)
      else (Inr (), s\<lparr>c_limit := number_of x\<rparr>))"

definition expire :: "js_arg \<Rightarrow> memo \<Rightarrow> (error + unit) \<times> memo" where
  "expire x s =
     (if typeof_arg x \<noteq> ''number'' then (Inl TypeError, s)
      else (Inr (), s\<lparr>c_time := number_of x\<rparr>))"

definition flush :: "memo \<Rightarrow> memo" where
  "flush s = s\<lparr>c_cache := []\<rparr>"

text \<open>
  \<^verbatim>\<open>memoize(fn)\<close>, given the blob that the document cache holds. The result is the state of
  the new wrapper; the wrapper itself is \<^const>\<open>memoized\<close> applied to the function.
\<close>

definition memoize :: "js_arg \<Rightarrow> cache option \<Rightarrow> error + memo" where
  "memoize fn blob =
     (let s0 = \<lparr>c_limit = 1000, c_time = 1000 * 60 * 60 * 24,
                c_cache = Map_of_blob blob, service = blob, trace = [ServiceGet]\<rparr>
      in case fn of Function f \<Rightarrow> Inr s0 | Data v \<Rightarrow> Inl TypeError)"

section \<open>Operators of the language\<close>

text \<open>The decimal digits of a natural number, as \<^verbatim>\<open>Number.prototype.toString\<close> prints them.\<close>

function digits_of :: "nat \<Rightarrow> string" where
  "digits_of n =
     (if n < 10 then [''0123456789'' ! n]
      else digits_of (n div 10) @ [''0123456789'' ! (n mod 10)])"
  by pat_completeness auto
termination
  by (relation "measure id") auto

declare digits_of.simps [simp del]

fun join_strings :: "string \<Rightarrow> string list \<Rightarrow> string" where
  "join_strings sep [] = []"
| "join_strings sep [x] = x"
| "join_strings sep (x # y # rest) = x @ sep @ join_strings sep (y # rest)"

text \<open>
  \<^verbatim>\<open>ToString\<close>, which string concatenation with \<^verbatim>\<open>+\<close> and \<^verbatim>\<open>join\<close> apply. An array prints
  as its elements joined with a comma, \<^verbatim>\<open>null\<close> and \<^verbatim>\<open>undefined\<close> elements as the empty
  string.
\<close>

fun ToString :: "jsval \<Rightarrow> string" where
  "ToString Undefined = ''undefined''"
| "ToString Null = ''null''"
| "ToString (Bool b) = (if b then ''true'' else ''false'')"
| "ToString (Num n) = (if n < 0 then ''-'' @ digits_of (nat (- n)) else digits_of (nat n))"
| "ToString (Str s) = s"
| "ToString (Arr xs) =
     join_strings '','' (map (\<lambda>x. if x = Undefined \<or> x = Null then [] else ToString x) xs)"
| "ToString (Obj kvs) = ''[object Object]''"

text \<open>\<^verbatim>\<open>Array.prototype.join\<close>\<close>

definition Array_join :: "string \<Rightarrow> jsval list \<Rightarrow> jsval" where
  "Array_join sep xs =
     Str (join_strings sep (map (\<lambda>x. if x = Undefined \<or> x = Null then [] else ToString x) xs))"

text \<open>
  \<open>v[k]\<close> for the property names that the script uses (\<^verbatim>\<open>objectEntries\<close>, \<^verbatim>\<open>attributes\<close>,
  \<^verbatim>\<open>objectTypeAttributeId\<close>, \<^verbatim>\<open>objectAttributeValues\<close>, \<^verbatim>\<open>displayValue\<close>, \<^verbatim>\<open>name\<close>, \<^verbatim>\<open>id\<close>):
  none of them is an index, \<^verbatim>\<open>length\<close> or an inherited property, so only an object can
  have one. Reading a property of \<^verbatim>\<open>undefined\<close> or \<^verbatim>\<open>null\<close> throws.
\<close>

definition get_prop :: "jsval \<Rightarrow> string \<Rightarrow> error + jsval" where
  "get_prop v k =
     (case v of
        Undefined \<Rightarrow> Inl TypeError
      | Null \<Rightarrow> Inl TypeError
      | Obj kvs \<Rightarrow> Inr (case map_of kvs k of None \<Rightarrow> Undefined | Some x \<Rightarrow> x)
      | _ \<Rightarrow> Inr Undefined)"

text \<open>\<open>v[i]\<close> for an index \<open>i\<close>.\<close>

definition get_index :: "jsval \<Rightarrow> nat \<Rightarrow> error + jsval" where
  "get_index v i =
     (case v of
        Undefined \<Rightarrow> Inl TypeError
      | Null \<Rightarrow> Inl TypeError
      | Arr xs \<Rightarrow> Inr (if i < length xs then xs ! i else Undefined)
      | Str s \<Rightarrow> Inr (if i < length s then Str [s ! i] else Undefined)
      | Obj kvs \<Rightarrow> Inr (case map_of kvs (digits_of i) of None \<Rightarrow> Undefined | Some x \<Rightarrow> x)
      | _ \<Rightarrow> Inr Undefined)"

text \<open>
  \<^verbatim>\<open>k in v\<close> for the same property names: it throws unless \<open>v\<close> is an object or an array.
\<close>

definition has_prop :: "string \<Rightarrow> jsval \<Rightarrow> error + bool" where
  "has_prop k v =
     (case v of
        Obj kvs \<Rightarrow> Inr (map_of kvs k \<noteq> None)
      | Arr xs \<Rightarrow> Inr False
      | _ \<Rightarrow> Inl TypeError)"

text \<open>
  The values that \<^verbatim>\<open>for (const x of v)\<close> binds: the elements of an array, the characters
  of a string; anything else that JSON can hold is not iterable.
\<close>

definition for_of :: "jsval \<Rightarrow> error + jsval list" where
  "for_of v =
     (case v of
        Arr xs \<Rightarrow> Inr xs
      | Str s \<Rightarrow> Inr (map (\<lambda>c. Str [c]) s)
      | _ \<Rightarrow> Inl TypeError)"

text \<open>
  The values \<open>v[item]\<close> that \<^verbatim>\<open>for (const item in v)\<close> goes through: the elements of an
  array, the property values of an object (in creation order, which is the order of
  \<^verbatim>\<open>for-in\<close> when no key is an integer), the characters of a string; nothing for
  \<^verbatim>\<open>null\<close>, \<^verbatim>\<open>undefined\<close>, a number or a boolean.
\<close>

definition for_in_values :: "jsval \<Rightarrow> jsval list" where
  "for_in_values v =
     (case v of
        Arr xs \<Rightarrow> xs
      | Obj kvs \<Rightarrow> map snd kvs
      | Str s \<Rightarrow> map (\<lambda>c. Str [c]) s
      | _ \<Rightarrow> [])"

text \<open>
  \<^verbatim>\<open>x == y\<close>. \<^verbatim>\<open>null\<close> and \<^verbatim>\<open>undefined\<close> equal each other and nothing else; two values of
  one primitive type are compared as they are; two objects are equal when they are the
  same object, which a caller's argument (or a property of one response) and a property
  of a freshly parsed response never are. Operands of different types are compared after
  a conversion (\<^verbatim>\<open>ToPrimitive\<close>, \<^verbatim>\<open>ToNumber\<close>): that comparison is the parameter
  \<open>coerce\<close>.
\<close>

definition loose_eq :: "(jsval \<Rightarrow> jsval \<Rightarrow> bool) \<Rightarrow> jsval \<Rightarrow> jsval \<Rightarrow> bool" where
  "loose_eq coerce x y =
     (if x = Undefined \<or> x = Null \<or> y = Undefined \<or> y = Null
      then (x = Undefined \<or> x = Null) \<and> (y = Undefined \<or> y = Null)
      else if typeof x = typeof y then typeof x \<noteq> ''object'' \<and> x = y
      else coerce x y)"

section \<open>The Insight client\<close>

text \<open>
  What the script takes from its host: \<^verbatim>\<open>JSON.stringify\<close> on argument lists,
  \<^verbatim>\<open>encodeURIComponent\<close>, the converting comparison behind \<^verbatim>\<open>==\<close>, and the network:
  \<open>fetch_json url\<close> is \<^verbatim>\<open>JSON.parse(UrlFetchApp.fetch(url, options).getContentText())\<close>
  with the fixed \<^verbatim>\<open>options\<close> of \<^verbatim>\<open>insightRequest\<close>, or the exception that either call
  throws.
\<close>

record host =
  JSON_stringify :: "jsval list \<Rightarrow> string"
  encodeURIComponent :: "string \<Rightarrow> string"
  coerced_equal :: "jsval \<Rightarrow> jsval \<Rightarrow> bool"
  fetch_json :: "string \<Rightarrow> error + jsval"

definition base_url :: string where
  "base_url = []"

definition insightRequest :: "host \<Rightarrow> string \<Rightarrow> error + jsval" where
  "insightRequest h path = fetch_json h (base_url @ path)"

definition insightObjectsIql :: "host \<Rightarrow> jsval \<Rightarrow> error + jsval" where
  "insightObjectsIql h iql_query =
     (let encoded_query = encodeURIComponent h (ToString iql_query);
          path = ''iql/objects'' @ ''?iql='' @ encoded_query
      in insightRequest h path)"

text \<open>The \<^verbatim>\<open>for ... of\<close> loop of \<^verbatim>\<open>getObjectTypeIdFromName\<close>, over the elements still to visit.\<close>

fun object_types_loop :: "host \<Rightarrow> jsval \<Rightarrow> jsval list \<Rightarrow> error + jsval" where
  "object_types_loop h name [] = Inr Null"
| "object_types_loop h name (object_type # rest) =
     (case has_prop ''name'' object_type of
        Inl e \<Rightarrow> Inl e
      | Inr present \<Rightarrow>
          if present then
            (case get_prop object_type ''name'' of
               Inl e \<Rightarrow> Inl e
             | Inr n \<Rightarrow>
                 if loose_eq (coerced_equal h) name n then get_prop object_type ''id''
                 else object_types_loop h name rest)
          else object_types_loop h name rest)"

definition getObjectTypeIdFromName :: "host \<Rightarrow> jsval \<Rightarrow> jsval \<Rightarrow> error + jsval" where
  "getObjectTypeIdFromName h name object_schema_id =
     (case insightRequest h (''objectschema/'' @ ToString object_schema_id @ ''/objecttypes'') of
        Inl e \<Rightarrow> Inl e
      | Inr data \<Rightarrow>
          (case for_of data of
             Inl e \<Rightarrow> Inl e
           | Inr object_types \<Rightarrow> object_types_loop h name object_types))"

text \<open>The \<^verbatim>\<open>for ... in\<close> loop of \<^verbatim>\<open>getObjectTypeAttributeId\<close>, over the values \<^verbatim>\<open>data[item]\<close>.\<close>

fun attribute_ids_loop :: "host \<Rightarrow> jsval \<Rightarrow> jsval list \<Rightarrow> error + jsval" where
  "attribute_ids_loop h name [] = Inr Null"
| "attribute_ids_loop h name (data_item # rest) =
     (case get_prop data_item ''name'' of
        Inl e \<Rightarrow> Inl e
      | Inr n \<Rightarrow>
          if loose_eq (coerced_equal h) name n then get_prop data_item ''id''
          else attribute_ids_loop h name rest)"

definition getObjectTypeAttributeId :: "host \<Rightarrow> jsval \<Rightarrow> jsval \<Rightarrow> jsval \<Rightarrow> error + jsval" where
  "getObjectTypeAttributeId h name object_name object_schema_id =
     (case getObjectTypeIdFromName h object_name object_schema_id of
        Inl e \<Rightarrow> Inl e
      | Inr object_type_id \<Rightarrow>
          (case insightRequest h (''objecttype/'' @ ToString object_type_id @ ''/attributes'') of
             Inl e \<Rightarrow> Inl e
           | Inr data \<Rightarrow> attribute_ids_loop h name (for_in_values data)))"

text \<open>
  The inner loop of \<^verbatim>\<open>getLazyIQL\<close> over the attributes of one object; \<open>results\<close> is the
  array built so far.
\<close>

fun attributes_loop :: "host \<Rightarrow> jsval \<Rightarrow> jsval list \<Rightarrow> jsval list \<Rightarrow> error + jsval list" where
  "attributes_loop h objectTypeAttributeId [] results = Inr results"
| "attributes_loop h objectTypeAttributeId (attribute # rest) results =
     (case has_prop ''objectTypeAttributeId'' attribute of
        Inl e \<Rightarrow> Inl e
      | Inr present \<Rightarrow>
          if present then
            (case get_prop attribute ''objectTypeAttributeId'' of
               Inl e \<Rightarrow> Inl e
             | Inr attribute_id \<Rightarrow>
                 if loose_eq (coerced_equal h) objectTypeAttributeId attribute_id then
                   (case get_prop attribute ''objectAttributeValues'' of
                      Inl e \<Rightarrow> Inl e
                    | Inr vals \<Rightarrow>
                        (case get_index vals 0 of
                           Inl e \<Rightarrow> Inl e
                         | Inr first \<Rightarrow>
                             (case get_prop first ''displayValue'' of
                                Inl e \<Rightarrow> Inl e
                              | Inr displayValue \<Rightarrow>
                                  attributes_loop h objectTypeAttributeId rest
                                    (results @ [displayValue]))))
                 else attributes_loop h objectTypeAttributeId rest results)
          else attributes_loop h objectTypeAttributeId rest results)"

text \<open>The outer loop of \<^verbatim>\<open>getLazyIQL\<close> over the object entries.\<close>

fun object_entries_loop :: "host \<Rightarrow> jsval \<Rightarrow> jsval list \<Rightarrow> jsval list \<Rightarrow> error + jsval list" where
  "object_entries_loop h objectTypeAttributeId [] results = Inr results"
| "object_entries_loop h objectTypeAttributeId (object # rest) results =
     (case get_prop object ''attributes'' of
        Inl e \<Rightarrow> Inl e
      | Inr attrs \<Rightarrow>
          (case for_of attrs of
             Inl e \<Rightarrow> Inl e
           | Inr attributes \<Rightarrow>
               (case attributes_loop h objectTypeAttributeId attributes results of
                  Inl e \<Rightarrow> Inl e
                | Inr results' \<Rightarrow> object_entries_loop h objectTypeAttributeId rest results')))"

text \<open>\<^verbatim>\<open>getLazyIQL\<close>; its two \<^verbatim>\<open>Logger.log\<close> lines have no part in the result.\<close>

definition getLazyIQL :: "host \<Rightarrow> jsval \<Rightarrow> jsval \<Rightarrow> jsval \<Rightarrow> jsval \<Rightarrow> error + jsval list" where
  "getLazyIQL h iql_search attribute object_name object_schema_id =
     (case getObjectTypeAttributeId h attribute object_name object_schema_id of
        Inl e \<Rightarrow> Inl e
      | Inr objectTypeAttributeId \<Rightarrow>
          (case insightObjectsIql h iql_search of
             Inl e \<Rightarrow> Inl e
           | Inr data \<Rightarrow>
               (case get_prop data ''objectEntries'' of
                  Inl e \<Rightarrow> Inl e
                | Inr object_entries \<Rightarrow>
                    (case for_of object_entries of
                       Inl e \<Rightarrow> Inl e
                     | Inr objects \<Rightarrow>
                         object_entries_loop h objectTypeAttributeId objects []))))"

section \<open>The spreadsheet functions\<close>

text \<open>
  \<^verbatim>\<open>_LAZYIQL\<close> and \<^verbatim>\<open>_LAZYIQL_LIST\<close> (an identifier cannot start with an underscore here).
  Both call \<^verbatim>\<open>getLazyIQL(iql_search, attribute)\<close>: the third and fourth parameter of
  \<^verbatim>\<open>getLazyIQL\<close> are \<^verbatim>\<open>undefined\<close>.
\<close>

definition LAZYIQL_0 :: "host \<Rightarrow> jsval \<Rightarrow> jsval \<Rightarrow> jsval \<Rightarrow> jsval \<Rightarrow> error + jsval" where
  "LAZYIQL_0 h iql_search attribute object_name object_schema_id =
     (case getLazyIQL h iql_search attribute Undefined Undefined of
        Inl e \<Rightarrow> Inl e
      | Inr results \<Rightarrow> get_index (Arr results) 0)"

definition LAZYIQL_LIST_0 :: "host \<Rightarrow> jsval \<Rightarrow> jsval \<Rightarrow> jsval \<Rightarrow> jsval \<Rightarrow> error + jsval" where
  "LAZYIQL_LIST_0 h iql_search attribute object_name object_schema_id =
     (case getLazyIQL h iql_search attribute Undefined Undefined of
        Inl e \<Rightarrow> Inl e
      | Inr results \<Rightarrow> Inr (Array_join '';'' results))"

text \<open>
  \<^verbatim>\<open>fn.apply(this, args)\<close> binds the parameters to the elements of \<open>args\<close> by position; a
  parameter without an element is \<^verbatim>\<open>undefined\<close>.
\<close>

definition parameter :: "jsval list \<Rightarrow> nat \<Rightarrow> jsval" where
  "parameter args i = (if i < length args then args ! i else Undefined)"

definition apply4 ::
  "(jsval \<Rightarrow> jsval \<Rightarrow> jsval \<Rightarrow> jsval \<Rightarrow> error + jsval) \<Rightarrow> jsval list \<Rightarrow> error + jsval" where
  "apply4 f args = f (parameter args 0) (parameter args 1) (parameter args 2) (parameter args 3)"

text \<open>
  \<^verbatim>\<open>MEMOIZED_IQL = memoize(_LAZYIQL)\<close> and \<^verbatim>\<open>MEMOIZED_IQL_LIST = memoize(_LAZYIQL_LIST)\<close>:
  the wrappers, each run on the state of its own closure.
\<close>

definition MEMOIZED_IQL ::
  "host \<Rightarrow> jsval list \<Rightarrow> int \<Rightarrow> int \<Rightarrow> int \<Rightarrow> memo \<Rightarrow> (error + jsval) \<times> memo" where
  "MEMOIZED_IQL h = memoized (JSON_stringify h) (apply4 (LAZYIQL_0 h))"

definition MEMOIZED_IQL_LIST ::
  "host \<Rightarrow> jsval list \<Rightarrow> int \<Rightarrow> int \<Rightarrow> int \<Rightarrow> memo \<Rightarrow> (error + jsval) \<times> memo" where
  "MEMOIZED_IQL_LIST h = memoized (JSON_stringify h) (apply4 (LAZYIQL_LIST_0 h))"

definition LAZYIQL ::
  "host \<Rightarrow> jsval \<Rightarrow> jsval \<Rightarrow> jsval \<Rightarrow> jsval \<Rightarrow> int \<Rightarrow> int \<Rightarrow> int \<Rightarrow> memo \<Rightarrow> (error + jsval) \<times> memo" where
  "LAZYIQL h iql_search attribute object_name object_schema_id =
     MEMOIZED_IQL h [iql_search, attribute, object_name, object_schema_id]"

definition LAZYIQL_LIST ::
  "host \<Rightarrow> jsval \<Rightarrow> jsval \<Rightarrow> jsval \<Rightarrow> jsval \<Rightarrow> int \<Rightarrow> int \<Rightarrow> int \<Rightarrow> memo \<Rightarrow> (error + jsval) \<times> memo" where
  "LAZYIQL_LIST h iql_search attribute object_name object_schema_id =
     MEMOIZED_IQL_LIST h [iql_search, attribute, object_name, object_schema_id]"

section \<open>Observations and example inputs\<close>

text \<open>How often the wrapped function was invoked, the document cache read, a hit logged.\<close>

definition fn_calls :: "event list \<Rightarrow> nat" where
  "fn_calls tr = length (filter (\<lambda>e. case e of FnCall a \<Rightarrow> True | _ \<Rightarrow> False) tr)"

definition service_gets :: "event list \<Rightarrow> nat" where
  "service_gets tr = length (filter (\<lambda>e. case e of ServiceGet \<Rightarrow> True | _ \<Rightarrow> False) tr)"

definition logged_hits :: "event list \<Rightarrow> nat" where
  "logged_hits tr = length (filter (\<lambda>e. case e of LoggerLog m \<Rightarrow> True | _ \<Rightarrow> False) tr)"

text \<open>The events of a run from state \<open>s\<close> to state \<open>s'\<close>.\<close>

definition new_events :: "memo \<Rightarrow> memo \<Rightarrow> event list" where
  "new_events s s' = drop (length (trace s)) (trace s')"

text \<open>
  Successive calls of one wrapper with the same arguments; each element of \<open>clocks\<close> holds
  the three clock readings of one call.
\<close>

definition repeat_calls ::
  "(int \<Rightarrow> int \<Rightarrow> int \<Rightarrow> memo \<Rightarrow> (error + jsval) \<times> memo) \<Rightarrow> (int \<times> int \<times> int) list \<Rightarrow> memo \<Rightarrow> memo" where
  "repeat_calls call clocks s =
     fold (\<lambda>c s. snd (call (fst c) (fst (snd c)) (snd (snd c)) s)) clocks s"

text \<open>The state of a wrapper made by \<^const>\<open>memoize\<close> when the document cache has no blob.\<close>

definition fresh :: memo where
  "fresh = \<lparr>c_limit = 1000, c_time = 1000 * 60 * 60 * 24, c_cache = [],
            service = None, trace = [ServiceGet]\<rparr>"

text \<open>
  \<^verbatim>\<open>JSON.stringify\<close> on values whose strings hold no character that JSON escapes (no
  quote, no backslash, no control character): the serializer of the examples.
\<close>

definition plain_quote :: "string \<Rightarrow> string" where
  \<open>plain_quote s = ''"'' @ s @ ''"''\<close>

fun plain_json :: "jsval \<Rightarrow> string" where
  "plain_json Undefined = ''null''"
| "plain_json Null = ''null''"
| "plain_json (Bool b) = (if b then ''true'' else ''false'')"
| "plain_json (Num n) = ToString (Num n)"
| "plain_json (Str s) = plain_quote s"
| "plain_json (Arr xs) = ''['' @ join_strings '','' (map plain_json xs) @ '']''"
| "plain_json (Obj kvs) =
     ''{'' @ join_strings '',''
        (map (\<lambda>kv. plain_quote (fst kv) @ '':'' @ plain_json (snd kv))
           (filter (\<lambda>kv. snd kv \<noteq> Undefined) kvs)) @ ''}''"

definition plain_stringify :: "jsval list \<Rightarrow> string" where
  "plain_stringify args = plain_json (Arr args)"

text \<open>
  An Insight instance for the examples. Schema 10 has the object types Laptop (1) and
  Server (2); Server has the attribute Owner (7). The search \<^verbatim>\<open>q\<close> finds one object whose
  owner is Alice, the search \<^verbatim>\<open>novalue\<close> one whose owner attribute has no value. The
  schema \<^verbatim>\<open>undefined\<close> has no object types; any other path gets an error object.
\<close>

definition demo_fetch :: "string \<Rightarrow> error + jsval" where
  "demo_fetch url =
     (if url = ''objectschema/10/objecttypes'' then
        Inr (Arr [Obj [(''id'', Num 1), (''name'', Str ''Laptop'')],
                  Obj [(''id'', Num 2), (''name'', Str ''Server'')]])
      else if url = ''objectschema/undefined/objecttypes'' then Inr (Arr [])
      else if url = ''objecttype/2/attributes'' then
        Inr (Arr [Obj [(''id'', Num 7), (''name'', Str ''Owner'')]])
      else if url = ''iql/objects?iql=q'' then
        Inr (Obj [(''objectEntries'',
               Arr [Obj [(''attributes'',
                      Arr [Obj [(''objectTypeAttributeId'', Num 7),
                                (''objectAttributeValues'',
                                   Arr [Obj [(''displayValue'', Str ''Alice'')]])]])]])])
      else if url = ''iql/objects?iql=novalue'' then
        Inr (Obj [(''objectEntries'',
               Arr [Obj [(''attributes'',
                      Arr [Obj [(''objectTypeAttributeId'', Num 7),
                                (''objectAttributeValues'', Arr [])]])]])])
      else Inr (Obj [(''errorMessages'', Arr [Str ''not found''])]))"

text \<open>
  The queries of the examples are letters only, which \<^verbatim>\<open>encodeURIComponent\<close> leaves as
  they are, and no comparison of the examples is between a number and a string.
\<close>

definition demo_host :: host where
  "demo_host = \<lparr>JSON_stringify = plain_stringify, encodeURIComponent = (\<lambda>s. s),
                 coerced_equal = (\<lambda>x y. False), fetch_json = demo_fetch\<rparr>"

text \<open>
  A call of a fresh wrapper over a function that returns \<open>v\<close>, with the argument list
  \<^verbatim>\<open>["q"]\<close> at time 100, and a second call with the same argument list at time 200.
\<close>

definition call_once :: "jsval \<Rightarrow> memo" where
  "call_once v = snd (memoized plain_stringify (\<lambda>args. Inr v) [Str ''q''] 100 100 100 fresh)"

definition call_twice :: "jsval \<Rightarrow> memo" where
  "call_twice v =
     snd (memoized plain_stringify (\<lambda>args. Inr v) [Str ''q''] 200 200 200 (call_once v))"

text \<open>
  \<^verbatim>\<open>memoized.limit(2)\<close> on a fresh wrapper, then calls with the argument lists
  \<^verbatim>\<open>["a"]\<close>, \<^verbatim>\<open>["b"]\<close>, \<^verbatim>\<open>["c"]\<close> (and then \<^verbatim>\<open>["d"]\<close>), 1 ms apart.
\<close>

definition three_inserts :: memo where
  "three_inserts =
     (let fn = (\<lambda>args. Inr (Str ''v''));
          s0 = snd (limit (Data (Num 2)) fresh);
          s1 = snd (memoized plain_stringify fn [Str ''a''] 1 1 1 s0);
          s2 = snd (memoized plain_stringify fn [Str ''b''] 2 2 2 s1)
      in snd (memoized plain_stringify fn [Str ''c''] 3 3 3 s2))"

definition four_inserts :: memo where
  "four_inserts =
     snd (memoized plain_stringify (\<lambda>args. Inr (Str ''v'')) [Str ''d''] 4 4 4 three_inserts)"

text \<open>
  A fresh wrapper after one call with the argument list \<^verbatim>\<open>["q"]\<close> at time 100, the
  function returning \<^verbatim>\<open>"Alice"\<close>.
\<close>

definition after_first_call :: memo where
  "after_first_call = call_once (Str ''Alice'')"

text \<open>
  A second wrapper of the same document, made while the document cache was empty, after
  the first wrapper has made that call: the blob has changed, its own map has not.
\<close>

definition second_wrapper :: memo where
  "second_wrapper = fresh\<lparr>service := service after_first_call\<rparr>"

section \<open>Facts about the cache operations\<close>

lemma fn_calls_simps [simp]:
  "fn_calls [] = 0"
  "fn_calls (xs @ ys) = fn_calls xs + fn_calls ys"
  "fn_calls (FnCall a # xs) = Suc (fn_calls xs)"
  "fn_calls (ServicePut c # xs) = fn_calls xs"
  "fn_calls (ServiceGet # xs) = fn_calls xs"
  "fn_calls (LoggerLog m # xs) = fn_calls xs"
  by (simp_all add: fn_calls_def)

lemma service_gets_simps [simp]:
  "service_gets [] = 0"
  "service_gets (xs @ ys) = service_gets xs + service_gets ys"
  "service_gets (FnCall a # xs) = service_gets xs"
  "service_gets (ServicePut c # xs) = service_gets xs"
  "service_gets (ServiceGet # xs) = Suc (service_gets xs)"
  "service_gets (LoggerLog m # xs) = service_gets xs"
  by (simp_all add: service_gets_def)

lemma logged_hits_simps [simp]:
  "logged_hits [] = 0"
  "logged_hits (xs @ ys) = logged_hits xs + logged_hits ys"
  "logged_hits (FnCall a # xs) = logged_hits xs"
  "logged_hits (ServicePut c # xs) = logged_hits xs"
  "logged_hits (ServiceGet # xs) = logged_hits xs"
  "logged_hits (LoggerLog m # xs) = Suc (logged_hits xs)"
  by (simp_all add: logged_hits_def)

lemma cacheServicePut_fields [simp]:
  "c_cache (cacheServicePut s) = c_cache s"
  "c_limit (cacheServicePut s) = c_limit s"
  "c_time (cacheServicePut s) = c_time s"
  "service (cacheServicePut s) = Some (c_cache s)"
  "trace (cacheServicePut s) = trace s @ [ServicePut (c_cache s)]"
  by (simp_all add: cacheServicePut_def)

lemma remove_fields [simp]:
  "c_cache (remove k s) = AList.delete k (c_cache s)"
  "c_limit (remove k s) = c_limit s"
  "c_time (remove k s) = c_time s"
  "service (remove k s) = Some (AList.delete k (c_cache s))"
  "trace (remove k s) = trace s @ [ServicePut (AList.delete k (c_cache s))]"
  by (simp_all add: remove_def)

lemma set_loop_Nil: "c_cache s = [] \<Longrightarrow> set_loop date s = s"
  by (subst set_loop.simps) simp

lemma set_loop_evict:
  "c_cache s = kv # rest \<Longrightarrow>
   int (length (c_cache s)) > c_limit s \<or> entry_expire (snd kv) + c_time s < date \<Longrightarrow>
   set_loop date s = set_loop date (remove (fst kv) s)"
  by (subst set_loop.simps) simp

lemma set_loop_stop:
  "c_cache s = kv # rest \<Longrightarrow>
   \<not> (int (length (c_cache s)) > c_limit s \<or> entry_expire (snd kv) + c_time s < date) \<Longrightarrow>
   set_loop date s = s"
  by (subst set_loop.simps) simp

text \<open>Whatever holds before the loop and survives a removal holds after the loop.\<close>

lemma set_loop_preserves:
  assumes "P s" and step: "\<And>k s. P s \<Longrightarrow> P (remove k s)"
  shows "P (set_loop date s)"
  using assms(1)
proof (induction date s rule: set_loop.induct)
  case (1 date s)
  show ?case
  proof (cases "c_cache s")
    case Nil
    with 1 show ?thesis by (simp add: set_loop_Nil)
  next
    case (Cons kv rest)
    show ?thesis
    proof (cases "int (length (c_cache s)) > c_limit s \<or> entry_expire (snd kv) + c_time s < date")
      case True
      have "P (set_loop date (remove (fst kv) s))"
        using "1.IH" [OF Cons True] step [OF "1.prems"] by blast
      then show ?thesis using set_loop_evict [OF Cons True] by simp
    next
      case False
      then show ?thesis using set_loop_stop [OF Cons False] "1.prems" by simp
    qed
  qed
qed

lemma set_loop_limit [simp]: "c_limit (set_loop date s) = c_limit s"
  by (rule set_loop_preserves [where P = "\<lambda>t. c_limit t = c_limit s"]) simp_all

lemma set_loop_time [simp]: "c_time (set_loop date s) = c_time s"
  by (rule set_loop_preserves [where P = "\<lambda>t. c_time t = c_time s"]) simp_all

lemma set_loop_fn_calls [simp]: "fn_calls (trace (set_loop date s)) = fn_calls (trace s)"
  by (rule set_loop_preserves [where P = "\<lambda>t. fn_calls (trace t) = fn_calls (trace s)"]) simp_all

lemma set_loop_service_gets [simp]: "service_gets (trace (set_loop date s)) = service_gets (trace s)"
  by (rule set_loop_preserves [where P = "\<lambda>t. service_gets (trace t) = service_gets (trace s)"]) simp_all

lemma set_loop_logged_hits [simp]: "logged_hits (trace (set_loop date s)) = logged_hits (trace s)"
  by (rule set_loop_preserves [where P = "\<lambda>t. logged_hits (trace t) = logged_hits (trace s)"]) simp_all

lemma set_loop_trace_prefix: "\<exists>ps. trace (set_loop date s) = trace s @ ps"
  by (rule set_loop_preserves [where P = "\<lambda>t. \<exists>ps. trace t = trace s @ ps"]) auto

lemma set_loop_service:
  "service (set_loop date s) = Some (c_cache (set_loop date s)) \<or>
   set_loop date s = s"
proof (induction date s rule: set_loop.induct)
  case (1 date s)
  show ?case
  proof (cases "c_cache s")
    case Nil
    then show ?thesis by (simp add: set_loop_Nil)
  next
    case (Cons kv rest)
    show ?thesis
    proof (cases "int (length (c_cache s)) > c_limit s \<or> entry_expire (snd kv) + c_time s < date")
      case True
      then show ?thesis
        using "1.IH" [OF Cons True] set_loop_evict [OF Cons True] by auto
    next
      case False
      then show ?thesis using set_loop_stop [OF Cons False] by simp
    qed
  qed
qed

text \<open>When the loop ends, the map is empty or within the limit.\<close>

lemma set_loop_size:
  "c_cache (set_loop date s) = [] \<or> int (length (c_cache (set_loop date s))) \<le> c_limit s"
proof (induction date s rule: set_loop.induct)
  case (1 date s)
  show ?case
  proof (cases "c_cache s")
    case Nil
    then show ?thesis by (simp add: set_loop_Nil)
  next
    case (Cons kv rest)
    show ?thesis
    proof (cases "int (length (c_cache s)) > c_limit s \<or> entry_expire (snd kv) + c_time s < date")
      case True
      then show ?thesis
        using "1.IH" [OF Cons True] set_loop_evict [OF Cons True] by simp
    next
      case False
      then show ?thesis using set_loop_stop [OF Cons False] by simp
    qed
  qed
qed

lemma length_update_le: "length (AList.update k v al) \<le> Suc (length al)"
  by (induction al) auto

text \<open>The bound that does hold after an insertion: one more than the limit.\<close>

lemma set_entry_size:
  "int (length (c_cache (snd (set_entry date now key v s)))) \<le> max (c_limit s) 0 + 1"
proof -
  let ?s1 = "set_loop date s"
  have "int (length (c_cache ?s1)) \<le> max (c_limit s) 0"
    using set_loop_size [of date s] by auto
  moreover have "length (c_cache (snd (set_entry date now key v s))) \<le> Suc (length (c_cache ?s1))"
    by (simp add: set_entry_def Let_def length_update_le)
  ultimately show ?thesis by linarith
qed

lemma set_entry_fields [simp]:
  "fst (set_entry date now key v s) = v"
  "c_limit (snd (set_entry date now key v s)) = c_limit s"
  "c_time (snd (set_entry date now key v s)) = c_time s"
  "service (snd (set_entry date now key v s)) = Some (c_cache (snd (set_entry date now key v s)))"
  "map_of (c_cache (snd (set_entry date now key v s))) key = Some \<lparr>entry_value = v, entry_expire = now\<rparr>"
  "fn_calls (trace (snd (set_entry date now key v s))) = fn_calls (trace s)"
  "service_gets (trace (snd (set_entry date now key v s))) = service_gets (trace s)"
  "logged_hits (trace (snd (set_entry date now key v s))) = logged_hits (trace s)"
  by (simp_all add: set_entry_def Let_def AList.update_conv')

lemma set_entry_last_event:
  "last (trace (snd (set_entry date now key v s))) = ServicePut (c_cache (snd (set_entry date now key v s)))"
  by (simp add: set_entry_def Let_def)

lemma get_counts [simp]:
  "fn_calls (trace (snd (get now key s))) = fn_calls (trace s)"
  "service_gets (trace (snd (get now key s))) = service_gets (trace s)"
  "c_limit (snd (get now key s)) = c_limit s"
  "c_time (snd (get now key s)) = c_time s"
  by (simp_all add: get_def split: option.splits)

lemma get_entry_after:
  "map_of (c_cache (snd (get now key s))) key = None \<or>
   map_of (c_cache (snd (get now key s))) key = map_of (c_cache s) key"
  by (auto simp: get_def AList.delete_conv' split: option.splits)

text \<open>The two ways through \<^const>\<open>memoized\<close>.\<close>

lemma memoized_hit:
  assumes "truthy (fst (get t_get (stringify args) s))"
  shows "memoized stringify fn args t_get t_date t_ins s =
           (Inr (fst (get t_get (stringify args) s)), snd (get t_get (stringify args) s))"
  using assms by (cases "get t_get (stringify args) s") (simp add: memoized_def)

lemma memoized_miss:
  assumes "\<not> truthy (fst (get t_get (stringify args) s))"
  shows "memoized stringify fn args t_get t_date t_ins s =
           (let s1 = snd (get t_get (stringify args) s);
                s2 = s1\<lparr>trace := trace s1 @ [FnCall args]\<rparr>
            in case fn args of
                 Inl e \<Rightarrow> (Inl e, s2)
               | Inr v \<Rightarrow> (Inr v, snd (set_entry t_date t_ins (stringify args) v s2)))"
  using assms
  by (cases "get t_get (stringify args) s")
     (simp add: memoized_def Let_def split: sum.splits prod.splits, metis set_entry_fields(1) fst_conv)

lemma memoized_miss_calls:
  assumes "\<not> truthy (fst (get t_get (stringify args) s))"
  shows "fst (memoized stringify fn args t_get t_date t_ins s) = fn args \<and>
         fn_calls (trace (snd (memoized stringify fn args t_get t_date t_ins s))) = Suc (fn_calls (trace s))"
  using assms by (simp add: memoized_miss Let_def split: sum.splits)

lemma memoized_hit_calls:
  assumes "truthy (fst (get t_get (stringify args) s))"
  shows "fn_calls (trace (snd (memoized stringify fn args t_get t_date t_ins s))) = fn_calls (trace s)"
  using assms by (simp add: memoized_hit)

lemma memoized_service_gets [simp]:
  "service_gets (trace (snd (memoized stringify fn args t_get t_date t_ins s))) = service_gets (trace s)"
  by (cases "truthy (fst (get t_get (stringify args) s))")
     (simp_all add: memoized_hit memoized_miss Let_def split: sum.splits)

section \<open>The map keeps its keys distinct and loses entries from the front\<close>

lemma memoize_fresh: "memoize (Function f) None = Inr fresh"
  by (simp add: memoize_def fresh_def Map_of_blob_def)

lemma Map_of_blob_distinct: "distinct (map fst (Map_of_blob blob))"
proof -
  have "distinct (map fst m) \<Longrightarrow>
        distinct (map fst (fold (\<lambda>kv m. AList.update (fst kv)
                  \<lparr>entry_value = JSON_roundtrip (entry_value (snd kv)),
                   entry_expire = entry_expire (snd kv)\<rparr> m) pairs m))" for pairs :: cache and m :: cache
    by (induction pairs arbitrary: m) (simp_all add: AList.distinct_update)
  then show ?thesis
    by (cases blob) (simp_all add: Map_of_blob_def)
qed

lemma set_loop_distinct:
  assumes "distinct (map fst (c_cache s))"
  shows "distinct (map fst (c_cache (set_loop date s)))"
  by (rule set_loop_preserves [where P = "\<lambda>t. distinct (map fst (c_cache t))"])
     (simp_all add: assms AList.distinct_delete)

lemma memoized_distinct:
  assumes "distinct (map fst (c_cache s))"
  shows "distinct (map fst (c_cache (snd (memoized stringify fn args t_get t_date t_ins s))))"
proof -
  let ?g = "get t_get (stringify args) s"
  have g: "distinct (map fst (c_cache (snd ?g)))"
    using assms by (simp add: get_def AList.distinct_delete split: option.splits)
  show ?thesis
  proof (cases "truthy (fst ?g)")
    case True
    then show ?thesis using g by (simp add: memoized_hit)
  next
    case False
    have "distinct (map fst (c_cache (snd (set_entry t_date t_ins (stringify args) v
              (snd ?g\<lparr>trace := trace (snd ?g) @ [FnCall args]\<rparr>)))))" for v
      using g set_loop_distinct [of "snd ?g\<lparr>trace := trace (snd ?g) @ [FnCall args]\<rparr>" t_date]
      by (simp add: set_entry_def Let_def AList.distinct_update)
    then show ?thesis using False g by (simp add: memoized_miss Let_def split: sum.splits)
  qed
qed

text \<open>The eviction loop removes a prefix of the insertion order: the oldest entries.\<close>

lemma set_loop_drops_oldest:
  assumes "distinct (map fst (c_cache s))"
  shows "\<exists>n. c_cache (set_loop date s) = drop n (c_cache s)"
  using assms
proof (induction date s rule: set_loop.induct)
  case (1 date s)
  show ?case
  proof (cases "c_cache s")
    case Nil
    then show ?thesis by (simp add: set_loop_Nil)
  next
    case (Cons kv rest)
    show ?thesis
    proof (cases "int (length (c_cache s)) > c_limit s \<or> entry_expire (snd kv) + c_time s < date")
      case True
      have rest: "c_cache (remove (fst kv) s) = rest"
        using Cons "1.prems" by simp
      then have "distinct (map fst (c_cache (remove (fst kv) s)))"
        using Cons "1.prems" by simp
      then obtain n where "c_cache (set_loop date (remove (fst kv) s)) = drop n rest"
        using "1.IH" [OF Cons True] rest by auto
      then have "c_cache (set_loop date s) = drop (Suc n) (c_cache s)"
        using set_loop_evict [OF Cons True] Cons by simp
      then show ?thesis by blast
    next
      case False
      then have "c_cache (set_loop date s) = drop 0 (c_cache s)"
        using set_loop_stop [OF Cons False] by simp
      then show ?thesis by blast
    qed
  qed
qed

section \<open>Configuration errors\<close>

text \<open>
  C7. \<^verbatim>\<open>memoized.limit(x)\<close> and \<^verbatim>\<open>memoized.expire(x)\<close> with an \<open>x\<close> whose \<^verbatim>\<open>typeof\<close> is not
  \<^verbatim>\<open>'number'\<close> throw a \<^verbatim>\<open>TypeError\<close> and leave the state of the wrapper as it was, and
  \<^verbatim>\<open>memoize(fn)\<close> with an \<open>fn\<close> that is not a function throws a \<^verbatim>\<open>TypeError\<close> and
  returns no wrapper.
\<close>

theorem configuration_type_errors:
  assumes "typeof_arg x \<noteq> ''number''"
  shows "limit x s = (Inl TypeError, s) \<and> expire x s = (Inl TypeError, s) \<and>
         memoize (Data v) blob = Inl TypeError"
  using assms by (simp add: limit_def expire_def memoize_def)

theorem configuration_type_errors_witness:
  "typeof_arg (Data (Str ''10'')) \<noteq> ''number'' \<and>
   limit (Data (Str ''10'')) fresh = (Inl TypeError, fresh) \<and>
   expire (Data (Str ''10'')) fresh = (Inl TypeError, fresh) \<and>
   memoize (Data (Str ''LAZYIQL'')) None = Inl TypeError"
  using configuration_type_errors [of "Data (Str ''10'')" fresh "Str ''LAZYIQL''" None] by simp

section \<open>Hits and misses\<close>

lemma memoized_serves_truthy_value:
  assumes "map_of (c_cache s) (stringify args) = Some e"
    and "t_get < entry_expire e + c_time s"
    and "truthy (entry_value e)"
  shows "fst (memoized stringify fn args t_get t_date t_ins s) = Inr (entry_value e) \<and>
         fn_calls (trace (snd (memoized stringify fn args t_get t_date t_ins s))) = fn_calls (trace s)"
proof -
  have "fst (get t_get (stringify args) s) = entry_value e"
    using assms by (simp add: get_def)
  then show ?thesis using assms(3) by (simp add: memoized_hit)
qed

text \<open>
  C1. Calling the wrapper twice with the same argument list within the time to live is
  claimed to invoke the function once, whatever the cached value. Evaluated for a function
  that returns the empty string: at the second call the entry for the key is in the cache
  and has not expired, the hit is logged, and the function runs again. The function runs
  at both calls as well when it returns zero, \<^verbatim>\<open>false\<close>, \<^verbatim>\<open>null\<close> or \<^verbatim>\<open>undefined\<close>; it runs
  once when it returns \<^verbatim>\<open>"Alice"\<close>.
\<close>

theorem falsy_value_computed_twice:
  "map_of (c_cache (call_once (Str []))) (plain_stringify [Str ''q'']) =
     Some \<lparr>entry_value = Str [], entry_expire = 100\<rparr> \<and>
   200 < 100 + c_time (call_once (Str [])) \<and>
   new_events (call_once (Str [])) (call_twice (Str [])) =
     [LoggerLog ''Using memoized function.'', FnCall [Str ''q''],
      ServicePut [(plain_stringify [Str ''q''], \<lparr>entry_value = Str [], entry_expire = 200\<rparr>)]] \<and>
   fn_calls (trace (call_twice (Str []))) = 2 \<and>
   fn_calls (trace (call_twice (Num 0))) = 2 \<and>
   fn_calls (trace (call_twice (Bool False))) = 2 \<and>
   fn_calls (trace (call_twice Null)) = 2 \<and>
   fn_calls (trace (call_twice Undefined)) = 2 \<and>
   fn_calls (trace (call_twice (Str ''Alice''))) = 1"
  by code_simp

section \<open>The size of the cache\<close>

text \<open>
  C3. After each insertion the cache is claimed to hold at most \<open>limit\<close> entries. Evaluated
  with the limit set to 2: after the third distinct argument list the cache holds three
  entries, and after the fourth it holds three again, the oldest one gone.
\<close>

theorem limit_exceeded_after_insertion:
  "c_limit three_inserts = 2 \<and> length (c_cache three_inserts) = 3 \<and>
   map fst (c_cache three_inserts) =
     [plain_stringify [Str ''a''], plain_stringify [Str ''b''], plain_stringify [Str ''c'']] \<and>
   c_limit four_inserts = 2 \<and> length (c_cache four_inserts) = 3 \<and>
   map fst (c_cache four_inserts) =
     [plain_stringify [Str ''b''], plain_stringify [Str ''c''], plain_stringify [Str ''d'']]"
  by code_simp

section \<open>Expiry\<close>

text \<open>
  C5. If the cache holds an entry for the argument list and its time to live has elapsed
  (\<open>insertedAt + ttl\<close> is not after the clock reading of the lookup), the call removes the
  entry, writes the shrunken cache to the document cache, logs no hit, then invokes the
  function once and returns what the function returns. The lookup leaves the map without
  the key and the blob equal to that map. When the function throws, this is the state
  after the call, with no entry under the key; when it returns a value, \<^verbatim>\<open>set\<close> runs on
  that state and the key holds a new entry with the value and the new insertion time.
\<close>

theorem expired_entry_removed_and_recomputed:
  assumes "map_of (c_cache s) (stringify args) = Some e"
    and "entry_expire e + c_time s \<le> t_get"
  shows "fst (memoized stringify fn args t_get t_date t_ins s) = fn args \<and>
         fn_calls (trace (snd (memoized stringify fn args t_get t_date t_ins s))) = Suc (fn_calls (trace s)) \<and>
         logged_hits (trace (snd (memoized stringify fn args t_get t_date t_ins s))) = logged_hits (trace s) \<and>
         take 2 (new_events s (snd (memoized stringify fn args t_get t_date t_ins s))) =
           [ServicePut (AList.delete (stringify args) (c_cache s)), FnCall args] \<and>
         get t_get (stringify args) s =
           (Undefined,
            s\<lparr>c_cache := AList.delete (stringify args) (c_cache s),
              service := Some (AList.delete (stringify args) (c_cache s)),
              trace := trace s @ [ServicePut (AList.delete (stringify args) (c_cache s))]\<rparr>) \<and>
         map_of (c_cache (snd (get t_get (stringify args) s))) (stringify args) = None \<and>
         snd (memoized stringify fn args t_get t_date t_ins s) =
           (case fn args of
              Inl err \<Rightarrow>
                s\<lparr>c_cache := AList.delete (stringify args) (c_cache s),
                  service := Some (AList.delete (stringify args) (c_cache s)),
                  trace := trace s @ [ServicePut (AList.delete (stringify args) (c_cache s)), FnCall args]\<rparr>
            | Inr v \<Rightarrow>
                snd (set_entry t_date t_ins (stringify args) v
                  (s\<lparr>c_cache := AList.delete (stringify args) (c_cache s),
                     service := Some (AList.delete (stringify args) (c_cache s)),
                     trace := trace s @ [ServicePut (AList.delete (stringify args) (c_cache s)),
                                         FnCall args]\<rparr>))) \<and>
         (\<forall>err. fn args = Inl err \<longrightarrow>
            map_of (c_cache (snd (memoized stringify fn args t_get t_date t_ins s))) (stringify args) = None) \<and>
         (\<forall>v. fn args = Inr v \<longrightarrow>
            map_of (c_cache (snd (memoized stringify fn args t_get t_date t_ins s))) (stringify args) =
              Some \<lparr>entry_value = v, entry_expire = t_ins\<rparr>) \<and>
         service (snd (memoized stringify fn args t_get t_date t_ins s)) =
           Some (c_cache (snd (memoized stringify fn args t_get t_date t_ins s)))"
proof -
  let ?key = "stringify args"
  let ?D = "AList.delete ?key (c_cache s)"
  let ?r = "s\<lparr>c_cache := ?D, service := Some ?D, trace := trace s @ [ServicePut ?D]\<rparr>"
  have rm: "remove ?key s = ?r"
    by (simp add: remove_def cacheServicePut_def)
  have get: "get t_get ?key s = (Undefined, ?r)"
    using assms rm by (simp add: get_def)
  then have miss: "\<not> truthy (fst (get t_get ?key s))" by simp
  let ?s2 = "s\<lparr>c_cache := ?D, service := Some ?D, trace := trace s @ [ServicePut ?D, FnCall args]\<rparr>"
  have m: "memoized stringify fn args t_get t_date t_ins s =
      (case fn args of Inl e \<Rightarrow> (Inl e, ?s2)
       | Inr v \<Rightarrow> (Inr v, snd (set_entry t_date t_ins ?key v ?s2)))"
    unfolding memoized_miss [where stringify = stringify and args = args, OF miss] Let_def get
    by (cases "fn args") simp_all
  have st: "snd (memoized stringify fn args t_get t_date t_ins s) =
      (case fn args of Inl err \<Rightarrow> ?s2 | Inr v \<Rightarrow> snd (set_entry t_date t_ins ?key v ?s2))"
    using m by (simp split: sum.splits)
  have gone: "map_of (c_cache (snd (get t_get ?key s))) ?key = None"
    using get by (simp add: AList.delete_conv')
  have tr2: "trace ?s2 = trace s @ [ServicePut ?D, FnCall args]"
    by simp
  have ev: "take 2 (new_events s (snd (memoized stringify fn args t_get t_date t_ins s))) =
           [ServicePut ?D, FnCall args]"
  proof (cases "fn args")
    case (Inl e)
    then show ?thesis using m by (simp add: new_events_def)
  next
    case (Inr v)
    obtain ps where "trace (set_loop t_date ?s2) = trace ?s2 @ ps"
      using set_loop_trace_prefix by blast
    then have "trace (snd (set_entry t_date t_ins ?key v ?s2)) =
        trace s @ [ServicePut ?D, FnCall args] @ ps @
          [ServicePut (c_cache (snd (set_entry t_date t_ins ?key v ?s2)))]"
      by (simp add: set_entry_def Let_def)
    then show ?thesis using m Inr by (simp add: new_events_def)
  qed
  have hits: "logged_hits (trace (snd (memoized stringify fn args t_get t_date t_ins s))) = logged_hits (trace s)"
    using m by (simp split: sum.splits)
  have err: "\<forall>err. fn args = Inl err \<longrightarrow>
            map_of (c_cache (snd (memoized stringify fn args t_get t_date t_ins s))) ?key = None"
    using st by (simp add: AList.delete_conv')
  have ok: "\<forall>v. fn args = Inr v \<longrightarrow>
            map_of (c_cache (snd (memoized stringify fn args t_get t_date t_ins s))) ?key =
              Some \<lparr>entry_value = v, entry_expire = t_ins\<rparr>"
    using st by simp
  have sv: "service (snd (memoized stringify fn args t_get t_date t_ins s)) =
           Some (c_cache (snd (memoized stringify fn args t_get t_date t_ins s)))"
    using st by (simp split: sum.splits)
  have res: "fst (memoized stringify fn args t_get t_date t_ins s) = fn args"
    using memoized_miss_calls [where stringify = stringify and args = args, OF miss] by simp
  have calls: "fn_calls (trace (snd (memoized stringify fn args t_get t_date t_ins s))) =
      Suc (fn_calls (trace s))"
    using memoized_miss_calls [where stringify = stringify and args = args, OF miss] by simp
  show ?thesis
    by (intro conjI) (rule res calls hits ev get gone st err ok sv)+
qed

theorem expired_entry_removed_and_recomputed_witness:
  "map_of (c_cache after_first_call) (plain_stringify [Str ''q'']) =
     Some \<lparr>entry_value = Str ''Alice'', entry_expire = 100\<rparr> \<and>
   entry_expire \<lparr>entry_value = Str ''Alice'', entry_expire = 100\<rparr> + c_time after_first_call \<le> 86400100 \<and>
   fst (memoized plain_stringify (\<lambda>args. Inr (Str ''Bob'')) [Str ''q'']
          86400100 86400100 86400100 after_first_call) = Inr (Str ''Bob'') \<and>
   fn_calls (trace (snd (memoized plain_stringify (\<lambda>args. Inr (Str ''Bob'')) [Str ''q'']
          86400100 86400100 86400100 after_first_call))) = Suc (fn_calls (trace after_first_call)) \<and>
   take 2 (new_events after_first_call (snd (memoized plain_stringify (\<lambda>args. Inr (Str ''Bob''))
          [Str ''q''] 86400100 86400100 86400100 after_first_call))) =
     [ServicePut [], FnCall [Str ''q'']] \<and>
   get 86400100 (plain_stringify [Str ''q'']) after_first_call =
     (Undefined,
      after_first_call\<lparr>c_cache := [], service := Some [],
        trace := trace after_first_call @ [ServicePut []]\<rparr>) \<and>
   map_of (c_cache (snd (memoized plain_stringify (\<lambda>args. Inr (Str ''Bob'')) [Str ''q'']
          86400100 86400100 86400100 after_first_call))) (plain_stringify [Str ''q'']) =
     Some \<lparr>entry_value = Str ''Bob'', entry_expire = 86400100\<rparr> \<and>
   map_of (c_cache (snd (memoized plain_stringify (\<lambda>args. Inl FetchError) [Str ''q'']
          86400100 86400100 86400100 after_first_call))) (plain_stringify [Str ''q'']) = None \<and>
   service (snd (memoized plain_stringify (\<lambda>args. Inl FetchError) [Str ''q'']
          86400100 86400100 86400100 after_first_call)) =
     Some (c_cache (snd (memoized plain_stringify (\<lambda>args. Inl FetchError) [Str ''q'']
          86400100 86400100 86400100 after_first_call)))"
proof -
  have h1: "map_of (c_cache after_first_call) (plain_stringify [Str ''q'']) =
     Some \<lparr>entry_value = Str ''Alice'', entry_expire = 100\<rparr>"
    by code_simp
  have h2: "entry_expire \<lparr>entry_value = Str ''Alice'', entry_expire = 100\<rparr> + c_time after_first_call \<le> 86400100"
    by code_simp
  have h3: "AList.delete (plain_stringify [Str ''q'']) (c_cache after_first_call) = []"
    by code_simp
  note computed = expired_entry_removed_and_recomputed
        [where stringify = plain_stringify and args = "[Str ''q'']" and fn = "\<lambda>args. Inr (Str ''Bob'')"
           and t_date = 86400100 and t_ins = 86400100, OF h1 h2, unfolded h3]
  note failed = expired_entry_removed_and_recomputed
        [where stringify = plain_stringify and args = "[Str ''q'']" and fn = "\<lambda>args. Inl FetchError"
           and t_date = 86400100 and t_ins = 86400100, OF h1 h2, unfolded h3]
  show ?thesis
    using computed failed h1 h2 by blast
qed

lemma set_loop_gone:
  assumes "map_of (c_cache s) k = None"
  shows "map_of (c_cache (set_loop date s)) k = None"
  by (rule set_loop_preserves [where P = "\<lambda>t. map_of (c_cache t) k = None"])
     (simp_all add: assms AList.delete_conv')

text \<open>
  C9. An entry holds its value and its insertion time and nothing else, and both the lookup
  and the eviction loop add the time to live that is configured when they run. So after
  \<^verbatim>\<open>memoized.expire(t)\<close> an entry already in the cache is served exactly when
  \<open>insertedAt + t\<close> is after the clock reading, and the oldest entry of a cache within its
  limit survives the eviction loop exactly when \<open>insertedAt + t\<close> is not before it.
\<close>

theorem expiry_decided_with_current_ttl:
  assumes "map_of (c_cache s) key = Some e"
    and "c_cache s = kv # rest"
    and "int (length (c_cache s)) \<le> c_limit s"
  shows "fst (get now key (snd (expire (Data (Num t)) s))) =
           (if now < entry_expire e + t then entry_value e else Undefined) \<and>
         c_cache (snd (get now key (snd (expire (Data (Num t)) s)))) =
           (if now < entry_expire e + t then c_cache s else AList.delete key (c_cache s)) \<and>
         map_of (c_cache (set_loop date (snd (expire (Data (Num t)) s)))) (fst kv) =
           (if entry_expire (snd kv) + t < date then None else Some (snd kv)) \<and>
         map_of (c_cache (snd (set_entry date' now' key' v s))) key' =
           Some \<lparr>entry_value = v, entry_expire = now'\<rparr>"
proof -
  let ?s' = "snd (expire (Data (Num t)) s)"
  have s': "?s' = s\<lparr>c_time := t\<rparr>"
    by (simp add: expire_def)
  have lookup: "fst (get now key ?s') =
           (if now < entry_expire e + t then entry_value e else Undefined)"
    "c_cache (snd (get now key ?s')) =
           (if now < entry_expire e + t then c_cache s else AList.delete key (c_cache s))"
    using assms(1) by (simp_all add: s' get_def)
  have evict: "map_of (c_cache (set_loop date ?s')) (fst kv) =
           (if entry_expire (snd kv) + t < date then None else Some (snd kv))"
  proof (cases "entry_expire (snd kv) + t < date")
    case True
    have c: "c_cache (s\<lparr>c_time := t\<rparr>) = kv # rest" using assms(2) by simp
    have "set_loop date (s\<lparr>c_time := t\<rparr>) = set_loop date (remove (fst kv) (s\<lparr>c_time := t\<rparr>))"
      using set_loop_evict [OF c] True by simp
    moreover have "map_of (c_cache (remove (fst kv) (s\<lparr>c_time := t\<rparr>))) (fst kv) = None"
      by (simp add: AList.delete_conv')
    ultimately show ?thesis using True s' set_loop_gone by simp
  next
    case False
    have c: "c_cache (s\<lparr>c_time := t\<rparr>) = kv # rest" using assms(2) by simp
    have "set_loop date (s\<lparr>c_time := t\<rparr>) = s\<lparr>c_time := t\<rparr>"
      using set_loop_stop [OF c] False assms(3) by simp
    then show ?thesis using False s' assms(2) by simp
  qed
  show ?thesis using lookup evict by simp
qed

theorem expiry_decided_with_current_ttl_witness:
  "map_of (c_cache after_first_call) (plain_stringify [Str ''q'']) =
     Some \<lparr>entry_value = Str ''Alice'', entry_expire = 100\<rparr> \<and>
   c_cache after_first_call =
     [(plain_stringify [Str ''q''], \<lparr>entry_value = Str ''Alice'', entry_expire = 100\<rparr>)] \<and>
   int (length (c_cache after_first_call)) \<le> c_limit after_first_call \<and>
   fst (get 200 (plain_stringify [Str ''q'']) after_first_call) = Str ''Alice'' \<and>
   fst (get 200 (plain_stringify [Str ''q'']) (snd (expire (Data (Num 50)) after_first_call))) = Undefined \<and>
   c_cache (snd (get 200 (plain_stringify [Str ''q''])
      (snd (expire (Data (Num 50)) after_first_call)))) = [] \<and>
   map_of (c_cache (set_loop 200 (snd (expire (Data (Num 50)) after_first_call))))
      (plain_stringify [Str ''q'']) = None \<and>
   fst (get 86400100 (plain_stringify [Str ''q'']) after_first_call) = Undefined \<and>
   fst (get 86400100 (plain_stringify [Str ''q''])
      (snd (expire (Data (Num 172800000)) after_first_call))) = Str ''Alice''"
proof -
  have h1: "map_of (c_cache after_first_call) (plain_stringify [Str ''q'']) =
     Some \<lparr>entry_value = Str ''Alice'', entry_expire = 100\<rparr>"
    by code_simp
  have h2: "c_cache after_first_call =
     (plain_stringify [Str ''q''], \<lparr>entry_value = Str ''Alice'', entry_expire = 100\<rparr>) # []"
    by code_simp
  have h3: "int (length (c_cache after_first_call)) \<le> c_limit after_first_call"
    by code_simp
  have old1: "fst (get 200 (plain_stringify [Str ''q'']) after_first_call) = Str ''Alice''"
    by code_simp
  have old2: "fst (get 86400100 (plain_stringify [Str ''q'']) after_first_call) = Undefined"
    by code_simp
  show ?thesis
    using expiry_decided_with_current_ttl [OF h1 h2 h3, of 200 50 200]
      expiry_decided_with_current_ttl [OF h1 h2 h3, of 86400100 172800000]
      h1 h2 h3 old1 old2
    by simp
qed

section \<open>Empty results\<close>

lemma get_no_truthy_entry:
  assumes "\<And>e. map_of (c_cache s) key = Some e \<Longrightarrow> \<not> truthy (entry_value e)"
  shows "\<not> truthy (fst (get now key s))"
  using assms by (simp add: get_def split: option.splits)

lemma memoized_miss_entry:
  assumes "\<not> truthy (fst (get t_get (stringify args) s))" and "fn args = Inr v"
  shows "map_of (c_cache (snd (memoized stringify fn args t_get t_date t_ins s))) (stringify args) =
           Some \<lparr>entry_value = v, entry_expire = t_ins\<rparr>"
  using assms by (simp add: memoized_miss Let_def)

lemma memoized_computed_is_miss:
  assumes "fn_calls (trace (snd (memoized stringify fn args t_get t_date t_ins s))) = Suc (fn_calls (trace s))"
  shows "\<not> truthy (fst (get t_get (stringify args) s))"
proof
  assume "truthy (fst (get t_get (stringify args) s))"
  then have "fn_calls (trace (snd (memoized stringify fn args t_get t_date t_ins s))) = fn_calls (trace s)"
    by (rule memoized_hit_calls)
  with assms show False by simp
qed

text \<open>
  While the function returns a falsy value and the cache holds no truthy value under the
  key, every call invokes the function.
\<close>

lemma repeat_calls_falsy:
  assumes "fn args = Inr v" and "\<not> truthy v"
    and "\<And>e. map_of (c_cache s) (stringify args) = Some e \<Longrightarrow> \<not> truthy (entry_value e)"
  shows "fn_calls (trace (repeat_calls (memoized stringify fn args) clocks s)) =
           fn_calls (trace s) + length clocks"
  using assms(3)
proof (induction clocks arbitrary: s)
  case Nil
  then show ?case by (simp add: repeat_calls_def)
next
  case (Cons c clocks)
  let ?s1 = "snd (memoized stringify fn args (fst c) (fst (snd c)) (snd (snd c)) s)"
  have miss: "\<not> truthy (fst (get (fst c) (stringify args) s))"
    using Cons.prems by (rule get_no_truthy_entry)
  have calls: "fn_calls (trace ?s1) = Suc (fn_calls (trace s))"
    using memoized_miss_calls [where stringify = stringify and args = args, OF miss] by simp
  have "map_of (c_cache ?s1) (stringify args) = Some \<lparr>entry_value = v, entry_expire = snd (snd c)\<rparr>"
    using miss assms(1) by (rule memoized_miss_entry)
  then have "\<And>e. map_of (c_cache ?s1) (stringify args) = Some e \<Longrightarrow> \<not> truthy (entry_value e)"
    using assms(2) by auto
  then have "fn_calls (trace (repeat_calls (memoized stringify fn args) clocks ?s1)) =
      fn_calls (trace ?s1) + length clocks"
    by (rule Cons.IH)
  moreover have "repeat_calls (memoized stringify fn args) (c # clocks) s =
      repeat_calls (memoized stringify fn args) clocks ?s1"
    by (simp add: repeat_calls_def)
  ultimately show ?case using calls by simp
qed

lemma falsy_result_never_served:
  assumes "fn args = Inr v" and "\<not> truthy v"
    and "fn_calls (trace (snd (memoized stringify fn args t_get t_date t_ins s))) = Suc (fn_calls (trace s))"
  shows "fst (memoized stringify fn args t_get t_date t_ins s) = Inr v \<and>
         fn_calls (trace (repeat_calls (memoized stringify fn args) clocks
            (snd (memoized stringify fn args t_get t_date t_ins s)))) =
           fn_calls (trace (snd (memoized stringify fn args t_get t_date t_ins s))) + length clocks"
proof -
  have miss: "\<not> truthy (fst (get t_get (stringify args) s))"
    using assms(3) by (rule memoized_computed_is_miss)
  let ?s1 = "snd (memoized stringify fn args t_get t_date t_ins s)"
  have "map_of (c_cache ?s1) (stringify args) = Some \<lparr>entry_value = v, entry_expire = t_ins\<rparr>"
    using miss assms(1) by (rule memoized_miss_entry)
  then have "\<And>e. map_of (c_cache ?s1) (stringify args) = Some e \<Longrightarrow> \<not> truthy (entry_value e)"
    using assms(2) by auto
  then have "fn_calls (trace (repeat_calls (memoized stringify fn args) clocks ?s1)) =
           fn_calls (trace ?s1) + length clocks"
    using assms(1,2) repeat_calls_falsy by blast
  moreover have "fst (memoized stringify fn args t_get t_date t_ins s) = Inr v"
    using memoized_miss_calls [where stringify = stringify and args = args, OF miss] assms(1) by simp
  ultimately show ?thesis by simp
qed

text \<open>
  C10. When the resolution that \<^verbatim>\<open>_LAZYIQL\<close> and \<^verbatim>\<open>_LAZYIQL_LIST\<close> run yields no value,
  \<^verbatim>\<open>_LAZYIQL\<close> returns \<^verbatim>\<open>undefined\<close> and \<^verbatim>\<open>_LAZYIQL_LIST\<close> the empty string, both falsy. After
  a call of \<^verbatim>\<open>LAZYIQL\<close> (of \<^verbatim>\<open>LAZYIQL_LIST\<close>) that computed this result, any number of further
  calls with the same arguments, at any times, each invoke the function again.
\<close>

theorem empty_result_never_served_from_cache:
  assumes "getLazyIQL h iql_search attribute Undefined Undefined = Inr []"
    and "fn_calls (trace (snd (LAZYIQL h iql_search attribute object_name object_schema_id t1 t2 t3 s))) =
           Suc (fn_calls (trace s))"
    and "fn_calls (trace (snd (LAZYIQL_LIST h iql_search attribute object_name object_schema_id u1 u2 u3 s'))) =
           Suc (fn_calls (trace s'))"
  shows "LAZYIQL_0 h iql_search attribute object_name object_schema_id = Inr Undefined \<and>
         LAZYIQL_LIST_0 h iql_search attribute object_name object_schema_id = Inr (Str []) \<and>
         \<not> truthy Undefined \<and> \<not> truthy (Str []) \<and>
         fst (LAZYIQL h iql_search attribute object_name object_schema_id t1 t2 t3 s) = Inr Undefined \<and>
         fn_calls (trace (repeat_calls (LAZYIQL h iql_search attribute object_name object_schema_id) clocks
            (snd (LAZYIQL h iql_search attribute object_name object_schema_id t1 t2 t3 s)))) =
           fn_calls (trace (snd (LAZYIQL h iql_search attribute object_name object_schema_id t1 t2 t3 s)))
             + length clocks \<and>
         fst (LAZYIQL_LIST h iql_search attribute object_name object_schema_id u1 u2 u3 s') = Inr (Str []) \<and>
         fn_calls (trace (repeat_calls (LAZYIQL_LIST h iql_search attribute object_name object_schema_id) clocks'
            (snd (LAZYIQL_LIST h iql_search attribute object_name object_schema_id u1 u2 u3 s')))) =
           fn_calls (trace (snd (LAZYIQL_LIST h iql_search attribute object_name object_schema_id u1 u2 u3 s')))
             + length clocks'"
proof -
  let ?args = "[iql_search, attribute, object_name, object_schema_id]"
  have one: "LAZYIQL_0 h iql_search attribute object_name object_schema_id = Inr Undefined"
    using assms(1) by (simp add: LAZYIQL_0_def get_index_def)
  have list: "LAZYIQL_LIST_0 h iql_search attribute object_name object_schema_id = Inr (Str [])"
    using assms(1) by (simp add: LAZYIQL_LIST_0_def Array_join_def)
  have fn1: "apply4 (LAZYIQL_0 h) ?args = Inr Undefined"
    using one by (simp add: apply4_def parameter_def)
  have fn2: "apply4 (LAZYIQL_LIST_0 h) ?args = Inr (Str [])"
    using list by (simp add: apply4_def parameter_def)
  have w1: "LAZYIQL h iql_search attribute object_name object_schema_id =
      memoized (JSON_stringify h) (apply4 (LAZYIQL_0 h)) ?args"
    by (simp add: LAZYIQL_def MEMOIZED_IQL_def)
  have w2: "LAZYIQL_LIST h iql_search attribute object_name object_schema_id =
      memoized (JSON_stringify h) (apply4 (LAZYIQL_LIST_0 h)) ?args"
    by (simp add: LAZYIQL_LIST_def MEMOIZED_IQL_LIST_def)
  have r1: "fst (LAZYIQL h iql_search attribute object_name object_schema_id t1 t2 t3 s) = Inr Undefined \<and>
         fn_calls (trace (repeat_calls (LAZYIQL h iql_search attribute object_name object_schema_id) clocks
            (snd (LAZYIQL h iql_search attribute object_name object_schema_id t1 t2 t3 s)))) =
           fn_calls (trace (snd (LAZYIQL h iql_search attribute object_name object_schema_id t1 t2 t3 s)))
             + length clocks"
    using falsy_result_never_served
        [where fn = "apply4 (LAZYIQL_0 h)" and stringify = "JSON_stringify h" and v = Undefined
           and args = "[iql_search, attribute, object_name, object_schema_id]" and clocks = clocks
           and t_get = t1 and t_date = t2 and t_ins = t3 and s = s, OF fn1]
      assms(2)
    by (simp add: w1)
  have r2: "fst (LAZYIQL_LIST h iql_search attribute object_name object_schema_id u1 u2 u3 s') = Inr (Str []) \<and>
         fn_calls (trace (repeat_calls (LAZYIQL_LIST h iql_search attribute object_name object_schema_id) clocks'
            (snd (LAZYIQL_LIST h iql_search attribute object_name object_schema_id u1 u2 u3 s')))) =
           fn_calls (trace (snd (LAZYIQL_LIST h iql_search attribute object_name object_schema_id u1 u2 u3 s')))
             + length clocks'"
    using falsy_result_never_served
        [where fn = "apply4 (LAZYIQL_LIST_0 h)" and stringify = "JSON_stringify h" and v = "Str []"
           and args = "[iql_search, attribute, object_name, object_schema_id]" and clocks = clocks'
           and t_get = u1 and t_date = u2 and t_ins = u3 and s = s', OF fn2]
      assms(3)
    by (simp add: w2)
  show ?thesis using one list r1 r2 by simp
qed

theorem empty_result_never_served_from_cache_witness:
  "getLazyIQL demo_host (Str ''q'') (Str ''Owner'') Undefined Undefined = Inr [] \<and>
   fn_calls (trace (snd (LAZYIQL demo_host (Str ''q'') (Str ''Owner'') (Str ''Server'') (Str ''10'') 100 100 100 fresh))) =
     Suc (fn_calls (trace fresh)) \<and>
   fn_calls (trace (snd (LAZYIQL_LIST demo_host (Str ''q'') (Str ''Owner'') (Str ''Server'') (Str ''10'') 100 100 100 fresh))) =
     Suc (fn_calls (trace fresh)) \<and>
   fst (LAZYIQL demo_host (Str ''q'') (Str ''Owner'') (Str ''Server'') (Str ''10'') 100 100 100 fresh) = Inr Undefined \<and>
   fst (LAZYIQL_LIST demo_host (Str ''q'') (Str ''Owner'') (Str ''Server'') (Str ''10'') 100 100 100 fresh) = Inr (Str []) \<and>
   fn_calls (trace (repeat_calls (LAZYIQL demo_host (Str ''q'') (Str ''Owner'') (Str ''Server'') (Str ''10''))
        [(200, 200, 200), (300, 300, 300)]
        (snd (LAZYIQL demo_host (Str ''q'') (Str ''Owner'') (Str ''Server'') (Str ''10'') 100 100 100 fresh)))) = 3 \<and>
   fn_calls (trace (repeat_calls (LAZYIQL_LIST demo_host (Str ''q'') (Str ''Owner'') (Str ''Server'') (Str ''10''))
        [(200, 200, 200), (300, 300, 300)]
        (snd (LAZYIQL_LIST demo_host (Str ''q'') (Str ''Owner'') (Str ''Server'') (Str ''10'') 100 100 100 fresh)))) = 3"
proof -
  have h1: "getLazyIQL demo_host (Str ''q'') (Str ''Owner'') Undefined Undefined = Inr []"
    by code_simp
  have h2: "fn_calls (trace (snd (LAZYIQL demo_host (Str ''q'') (Str ''Owner'') (Str ''Server'') (Str ''10'') 100 100 100 fresh))) =
     Suc (fn_calls (trace fresh))"
    by code_simp
  have h3: "fn_calls (trace (snd (LAZYIQL_LIST demo_host (Str ''q'') (Str ''Owner'') (Str ''Server'') (Str ''10'') 100 100 100 fresh))) =
     Suc (fn_calls (trace fresh))"
    by code_simp
  have h4: "fn_calls (trace fresh) = 0"
    by code_simp
  show ?thesis
    using empty_result_never_served_from_cache [OF h1 h2 h3,
        of "[(200, 200, 200), (300, 300, 300)]" "[(200, 200, 200), (300, 300, 300)]"]
      h1 h2 h3 h4
    by simp
qed

section \<open>The document cache\<close>

lemma memoized_service:
  "service (snd (memoized stringify fn args t_get t_date t_ins s)) =
     Some (c_cache (snd (memoized stringify fn args t_get t_date t_ins s))) \<or>
   c_cache (snd (memoized stringify fn args t_get t_date t_ins s)) = c_cache s \<and>
   service (snd (memoized stringify fn args t_get t_date t_ins s)) = service s"
proof -
  let ?g = "get t_get (stringify args) s"
  have g: "service (snd ?g) = Some (c_cache (snd ?g)) \<or>
           c_cache (snd ?g) = c_cache s \<and> service (snd ?g) = service s"
    by (simp add: get_def split: option.splits)
  show ?thesis
  proof (cases "truthy (fst ?g)")
    case True
    then show ?thesis using g by (simp add: memoized_hit)
  next
    case False
    then show ?thesis using g by (auto simp: memoized_miss Let_def split: sum.splits)
  qed
qed

text \<open>
  C4, as claimed: the document cache is read at the start of every lookup and overwritten
  after every mutation, \<^verbatim>\<open>flush()\<close> included. Evaluated: a wrapper whose document cache
  holds a live entry for \<^verbatim>\<open>["q"]\<close>, put there by another wrapper, looks \<^verbatim>\<open>["q"]\<close> up without
  reading the document cache and computes the value anew; and \<^verbatim>\<open>flush()\<close> empties the map
  while the blob keeps the entry and no event occurs.
\<close>

theorem lookup_reads_nothing_and_flush_writes_nothing:
  "service second_wrapper =
     Some [(plain_stringify [Str ''q''], \<lparr>entry_value = Str ''Alice'', entry_expire = 100\<rparr>)] \<and>
   fst (memoized plain_stringify (\<lambda>args. Inr (Str ''Bob'')) [Str ''q''] 200 200 200 second_wrapper) =
     Inr (Str ''Bob'') \<and>
   new_events second_wrapper
     (snd (memoized plain_stringify (\<lambda>args. Inr (Str ''Bob'')) [Str ''q''] 200 200 200 second_wrapper)) =
     [FnCall [Str ''q''],
      ServicePut [(plain_stringify [Str ''q''], \<lparr>entry_value = Str ''Bob'', entry_expire = 200\<rparr>)]] \<and>
   c_cache after_first_call =
     [(plain_stringify [Str ''q''], \<lparr>entry_value = Str ''Alice'', entry_expire = 100\<rparr>)] \<and>
   c_cache (flush after_first_call) = [] \<and>
   service (flush after_first_call) =
     Some [(plain_stringify [Str ''q''], \<lparr>entry_value = Str ''Alice'', entry_expire = 100\<rparr>)] \<and>
   new_events after_first_call (flush after_first_call) = []"
  by code_simp

text \<open>
  C4, amended. The document cache is read once, when \<^verbatim>\<open>memoize\<close> makes the wrapper, and the
  map of the wrapper is built from the blob; no lookup and no call of the wrapper reads it.
  It is overwritten with the whole map at the end of every insertion (\<^verbatim>\<open>set\<close>) and of
  every removal (\<^verbatim>\<open>remove\<close>), so after a call of the wrapper the blob is the map, unless
  the call changed neither.
\<close>

theorem service_read_by_memoize_written_by_set_and_remove:
  "memoize (Function f) blob =
     Inr \<lparr>c_limit = 1000, c_time = 86400000, c_cache = Map_of_blob blob,
          service = blob, trace = [ServiceGet]\<rparr> \<and>
   service_gets (trace (snd (get now key s))) = service_gets (trace s) \<and>
   service_gets (trace (snd (memoized stringify fn args t_get t_date t_ins s))) = service_gets (trace s) \<and>
   service (snd (set_entry date now key v s)) = Some (c_cache (snd (set_entry date now key v s))) \<and>
   last (trace (snd (set_entry date now key v s))) = ServicePut (c_cache (snd (set_entry date now key v s))) \<and>
   service (remove key s) = Some (c_cache (remove key s)) \<and>
   last (trace (remove key s)) = ServicePut (c_cache (remove key s)) \<and>
   (service (snd (memoized stringify fn args t_get t_date t_ins s)) =
      Some (c_cache (snd (memoized stringify fn args t_get t_date t_ins s))) \<or>
    c_cache (snd (memoized stringify fn args t_get t_date t_ins s)) = c_cache s \<and>
    service (snd (memoized stringify fn args t_get t_date t_ins s)) = service s)"
proof -
  have "memoize (Function f) blob =
     Inr \<lparr>c_limit = 1000, c_time = 86400000, c_cache = Map_of_blob blob,
          service = blob, trace = [ServiceGet]\<rparr>"
    by (simp add: memoize_def)
  then show ?thesis
    using memoized_service [of stringify fn args t_get t_date t_ins s]
    by (simp add: set_entry_last_event)
qed

section \<open>The arguments of the resolution\<close>

lemma LAZYIQL_0_ignores_object_name_and_schema:
  "LAZYIQL_0 h iql_search attribute object_name object_schema_id =
     LAZYIQL_0 h iql_search attribute object_name' object_schema_id' \<and>
   LAZYIQL_LIST_0 h iql_search attribute object_name object_schema_id =
     LAZYIQL_LIST_0 h iql_search attribute object_name' object_schema_id'"
  by (simp add: LAZYIQL_0_def LAZYIQL_LIST_0_def)

text \<open>
  C2. \<^verbatim>\<open>LAZYIQL\<close> is claimed to return the first value, and \<^verbatim>\<open>LAZYIQL_LIST\<close> all values
  joined, of the resolution for the caller's four arguments. Evaluated on the example
  instance: the resolution for \<^verbatim>\<open>("q", "Owner", "Server", "10")\<close> yields \<^verbatim>\<open>["Alice"]\<close>, yet
  \<^verbatim>\<open>LAZYIQL\<close> returns \<^verbatim>\<open>undefined\<close> and \<^verbatim>\<open>LAZYIQL_LIST\<close> the empty string, which is the
  resolution with object name and schema id \<^verbatim>\<open>undefined\<close>.
\<close>

theorem LAZYIQL_drops_object_name_and_schema:
  "getLazyIQL demo_host (Str ''q'') (Str ''Owner'') (Str ''Server'') (Str ''10'') = Inr [Str ''Alice''] \<and>
   getLazyIQL demo_host (Str ''q'') (Str ''Owner'') Undefined Undefined = Inr [] \<and>
   LAZYIQL_0 demo_host (Str ''q'') (Str ''Owner'') (Str ''Server'') (Str ''10'') = Inr Undefined \<and>
   LAZYIQL_LIST_0 demo_host (Str ''q'') (Str ''Owner'') (Str ''Server'') (Str ''10'') = Inr (Str []) \<and>
   fst (LAZYIQL demo_host (Str ''q'') (Str ''Owner'') (Str ''Server'') (Str ''10'') 100 100 100 fresh) =
     Inr Undefined \<and>
   fst (LAZYIQL_LIST demo_host (Str ''q'') (Str ''Owner'') (Str ''Server'') (Str ''10'') 100 100 100 fresh) =
     Inr (Str [])"
  by code_simp

section \<open>Attributes that are not found, attributes without a value\<close>

lemma loose_eq_Null [simp]: "loose_eq c Null v = (v = Undefined \<or> v = Null)"
  by (auto simp: loose_eq_def)

lemma attribute_ids_loop_absent:
  assumes "\<forall>item \<in> set items. \<exists>n. get_prop item ''name'' = Inr n \<and> \<not> loose_eq (coerced_equal h) name n"
  shows "attribute_ids_loop h name items = Inr Null"
  using assms by (induction items) auto

lemma attributes_loop_null_id:
  assumes "\<forall>a \<in> set attributes. \<exists>kvs. a = Obj kvs \<and>
             map_of kvs ''objectTypeAttributeId'' \<noteq> Some Null \<and>
             map_of kvs ''objectTypeAttributeId'' \<noteq> Some Undefined"
  shows "attributes_loop h Null attributes results = Inr results"
  using assms
proof (induction attributes)
  case Nil
  then show ?case by simp
next
  case (Cons a attributes)
  then obtain kvs where a: "a = Obj kvs"
    and n: "map_of kvs ''objectTypeAttributeId'' \<noteq> Some Null"
           "map_of kvs ''objectTypeAttributeId'' \<noteq> Some Undefined"
    by auto
  have "attributes_loop h Null (a # attributes) results = attributes_loop h Null attributes results"
    using a n by (cases "map_of kvs ''objectTypeAttributeId''") (simp_all add: has_prop_def get_prop_def)
  then show ?case using Cons by simp
qed

lemma object_entries_loop_null_id:
  assumes "\<forall>object \<in> set objects. \<exists>attrs attributes.
             get_prop object ''attributes'' = Inr attrs \<and> for_of attrs = Inr attributes \<and>
             (\<forall>a \<in> set attributes. \<exists>kvs. a = Obj kvs \<and>
                map_of kvs ''objectTypeAttributeId'' \<noteq> Some Null \<and>
                map_of kvs ''objectTypeAttributeId'' \<noteq> Some Undefined)"
  shows "object_entries_loop h Null objects results = Inr results"
  using assms
proof (induction objects)
  case Nil
  then show ?case by simp
next
  case (Cons object objects)
  then obtain attrs attributes where o: "get_prop object ''attributes'' = Inr attrs"
    "for_of attrs = Inr attributes"
    "\<forall>a \<in> set attributes. \<exists>kvs. a = Obj kvs \<and>
                map_of kvs ''objectTypeAttributeId'' \<noteq> Some Null \<and>
                map_of kvs ''objectTypeAttributeId'' \<noteq> Some Undefined"
    by auto
  have "attributes_loop h Null attributes results = Inr results"
    using o(3) by (rule attributes_loop_null_id)
  then show ?case using o(1,2) Cons by simp
qed

text \<open>
  C6. When the object type is looked up and no item of its fetched attribute list has the
  name asked for, \<^verbatim>\<open>getObjectTypeAttributeId\<close> returns \<^verbatim>\<open>null\<close>; and when, besides, the search
  result is a list of objects with attribute lists of which no attribute carries an
  \<^verbatim>\<open>objectTypeAttributeId\<close> that is \<^verbatim>\<open>null\<close> (or \<^verbatim>\<open>undefined\<close>, which JSON cannot hold),
  \<^verbatim>\<open>getLazyIQL\<close> returns the empty array and does not throw.
\<close>

theorem attribute_not_found_gives_empty_result:
  assumes "getObjectTypeIdFromName h object_name object_schema_id = Inr object_type_id"
    and "insightRequest h (''objecttype/'' @ ToString object_type_id @ ''/attributes'') = Inr attribute_list"
    and "\<forall>item \<in> set (for_in_values attribute_list).
           \<exists>n. get_prop item ''name'' = Inr n \<and> \<not> loose_eq (coerced_equal h) name n"
    and "insightObjectsIql h iql_search = Inr data"
    and "get_prop data ''objectEntries'' = Inr object_entries"
    and "for_of object_entries = Inr objects"
    and "\<forall>object \<in> set objects. \<exists>attrs attributes.
           get_prop object ''attributes'' = Inr attrs \<and> for_of attrs = Inr attributes \<and>
           (\<forall>a \<in> set attributes. \<exists>kvs. a = Obj kvs \<and>
              map_of kvs ''objectTypeAttributeId'' \<noteq> Some Null \<and>
              map_of kvs ''objectTypeAttributeId'' \<noteq> Some Undefined)"
  shows "getObjectTypeAttributeId h name object_name object_schema_id = Inr Null \<and>
         getLazyIQL h iql_search name object_name object_schema_id = Inr []"
proof -
  have id: "getObjectTypeAttributeId h name object_name object_schema_id = Inr Null"
    using assms(1,2) attribute_ids_loop_absent [OF assms(3)]
    by (simp add: getObjectTypeAttributeId_def)
  have "object_entries_loop h Null objects [] = Inr []"
    using assms(7) by (rule object_entries_loop_null_id)
  then have "getLazyIQL h iql_search name object_name object_schema_id = Inr []"
    using id assms(4,5,6) by (simp add: getLazyIQL_def)
  with id show ?thesis by simp
qed

theorem attribute_not_found_gives_empty_result_witness:
  "getObjectTypeIdFromName demo_host (Str ''Server'') (Str ''10'') = Inr (Num 2) \<and>
   insightRequest demo_host (''objecttype/'' @ ToString (Num 2) @ ''/attributes'') =
     Inr (Arr [Obj [(''id'', Num 7), (''name'', Str ''Owner'')]]) \<and>
   \<not> loose_eq (coerced_equal demo_host) (Str ''Colour'') (Str ''Owner'') \<and>
   getObjectTypeAttributeId demo_host (Str ''Colour'') (Str ''Server'') (Str ''10'') = Inr Null \<and>
   getLazyIQL demo_host (Str ''q'') (Str ''Colour'') (Str ''Server'') (Str ''10'') = Inr []"
proof -
  let ?attribute = "Obj [(''objectTypeAttributeId'', Num 7),
                         (''objectAttributeValues'', Arr [Obj [(''displayValue'', Str ''Alice'')]])]"
  let ?object = "Obj [(''attributes'', Arr [?attribute])]"
  have h1: "getObjectTypeIdFromName demo_host (Str ''Server'') (Str ''10'') = Inr (Num 2)"
    by code_simp
  have h2: "insightRequest demo_host (''objecttype/'' @ ToString (Num 2) @ ''/attributes'') =
     Inr (Arr [Obj [(''id'', Num 7), (''name'', Str ''Owner'')]])"
    by code_simp
  have ne: "\<not> loose_eq (coerced_equal demo_host) (Str ''Colour'') (Str ''Owner'')"
    by code_simp
  have h3: "\<forall>item \<in> set (for_in_values (Arr [Obj [(''id'', Num 7), (''name'', Str ''Owner'')]])).
           \<exists>n. get_prop item ''name'' = Inr n \<and> \<not> loose_eq (coerced_equal demo_host) (Str ''Colour'') n"
    using ne by (simp add: for_in_values_def get_prop_def)
  have h4: "insightObjectsIql demo_host (Str ''q'') = Inr (Obj [(''objectEntries'', Arr [?object])])"
    by code_simp
  have h5: "get_prop (Obj [(''objectEntries'', Arr [?object])]) ''objectEntries'' = Inr (Arr [?object])"
    by (simp add: get_prop_def)
  have h6: "for_of (Arr [?object]) = Inr [?object]"
    by (simp add: for_of_def)
  have h7: "\<forall>object \<in> set [?object]. \<exists>attrs attributes.
           get_prop object ''attributes'' = Inr attrs \<and> for_of attrs = Inr attributes \<and>
           (\<forall>a \<in> set attributes. \<exists>kvs. a = Obj kvs \<and>
              map_of kvs ''objectTypeAttributeId'' \<noteq> Some Null \<and>
              map_of kvs ''objectTypeAttributeId'' \<noteq> Some Undefined)"
    by (simp add: get_prop_def for_of_def)
  show ?thesis
    using attribute_not_found_gives_empty_result [OF h1 h2 h3 h4 h5 h6 h7] h1 h2 ne by simp
qed

lemma attributes_loop_fails:
  assumes "Obj kvs \<in> set attributes"
    and "map_of kvs ''objectTypeAttributeId'' = Some attribute_id"
    and "loose_eq (coerced_equal h) objectTypeAttributeId attribute_id"
    and "map_of kvs ''objectAttributeValues'' = Some (Arr [])"
  shows "\<exists>e. attributes_loop h objectTypeAttributeId attributes results = Inl e"
  using assms(1)
proof (induction attributes arbitrary: results)
  case Nil
  then show ?case by simp
next
  case (Cons a attributes)
  show ?case
  proof (cases "a = Obj kvs")
    case True
    then show ?thesis
      using assms(2,3,4) by (simp add: has_prop_def get_prop_def get_index_def)
  next
    case False
    then have "Obj kvs \<in> set attributes" using Cons.prems by simp
    then have "\<And>results. \<exists>e. attributes_loop h objectTypeAttributeId attributes results = Inl e"
      by (rule Cons.IH)
    then show ?thesis by (auto split: sum.splits)
  qed
qed

lemma object_entries_loop_fails:
  assumes "object \<in> set objects"
    and "get_prop object ''attributes'' = Inr attrs" and "for_of attrs = Inr attributes"
    and "\<And>results. \<exists>e. attributes_loop h objectTypeAttributeId attributes results = Inl e"
  shows "\<exists>e. object_entries_loop h objectTypeAttributeId objects results = Inl e"
  using assms(1)
proof (induction objects arbitrary: results)
  case Nil
  then show ?case by simp
next
  case (Cons x objects)
  show ?case
  proof (cases "x = object")
    case True
    then show ?thesis using assms(2,3) assms(4) [of results] by auto
  next
    case False
    then have "object \<in> set objects" using Cons.prems by simp
    then have "\<And>results. \<exists>e. object_entries_loop h objectTypeAttributeId objects results = Inl e"
      by (rule Cons.IH)
    then show ?thesis by (auto split: sum.splits)
  qed
qed

text \<open>
  C8. When the attribute id is resolved and some object of the search result has an
  attribute that carries a matching \<^verbatim>\<open>objectTypeAttributeId\<close> and an empty
  \<^verbatim>\<open>objectAttributeValues\<close> list, \<^verbatim>\<open>getLazyIQL\<close> throws: it returns no array, empty or not.
\<close>

theorem matching_attribute_without_values_fails:
  assumes "getObjectTypeAttributeId h attribute object_name object_schema_id = Inr objectTypeAttributeId"
    and "insightObjectsIql h iql_search = Inr data"
    and "get_prop data ''objectEntries'' = Inr object_entries"
    and "for_of object_entries = Inr objects"
    and "object \<in> set objects"
    and "get_prop object ''attributes'' = Inr attrs"
    and "for_of attrs = Inr attributes"
    and "Obj kvs \<in> set attributes"
    and "map_of kvs ''objectTypeAttributeId'' = Some attribute_id"
    and "loose_eq (coerced_equal h) objectTypeAttributeId attribute_id"
    and "map_of kvs ''objectAttributeValues'' = Some (Arr [])"
  shows "\<exists>e. getLazyIQL h iql_search attribute object_name object_schema_id = Inl e"
proof -
  have "\<And>results. \<exists>e. attributes_loop h objectTypeAttributeId attributes results = Inl e"
    using assms(8,9,10,11) by (rule attributes_loop_fails)
  then have "\<exists>e. object_entries_loop h objectTypeAttributeId objects [] = Inl e"
    using assms(5,6,7) object_entries_loop_fails by blast
  then show ?thesis
    using assms(1,2,3,4) by (auto simp: getLazyIQL_def)
qed

theorem matching_attribute_without_values_fails_witness:
  "getObjectTypeAttributeId demo_host (Str ''Owner'') (Str ''Server'') (Str ''10'') = Inr (Num 7) \<and>
   insightObjectsIql demo_host (Str ''novalue'') =
     Inr (Obj [(''objectEntries'',
            Arr [Obj [(''attributes'',
                   Arr [Obj [(''objectTypeAttributeId'', Num 7),
                             (''objectAttributeValues'', Arr [])]])]])]) \<and>
   loose_eq (coerced_equal demo_host) (Num 7) (Num 7) \<and>
   (\<exists>e. getLazyIQL demo_host (Str ''novalue'') (Str ''Owner'') (Str ''Server'') (Str ''10'') = Inl e) \<and>
   getLazyIQL demo_host (Str ''novalue'') (Str ''Owner'') (Str ''Server'') (Str ''10'') = Inl TypeError"
proof -
  let ?kvs = "[(''objectTypeAttributeId'', Num 7), (''objectAttributeValues'', Arr [])]"
  let ?object = "Obj [(''attributes'', Arr [Obj ?kvs])]"
  have h1: "getObjectTypeAttributeId demo_host (Str ''Owner'') (Str ''Server'') (Str ''10'') = Inr (Num 7)"
    by code_simp
  have h2: "insightObjectsIql demo_host (Str ''novalue'') = Inr (Obj [(''objectEntries'', Arr [?object])])"
    by code_simp
  have h3: "get_prop (Obj [(''objectEntries'', Arr [?object])]) ''objectEntries'' = Inr (Arr [?object])"
    by (simp add: get_prop_def)
  have h4: "for_of (Arr [?object]) = Inr [?object]"
    by (simp add: for_of_def)
  have h5: "?object \<in> set [?object]"
    by simp
  have h6: "get_prop ?object ''attributes'' = Inr (Arr [Obj ?kvs])"
    by (simp add: get_prop_def)
  have h7: "for_of (Arr [Obj ?kvs]) = Inr [Obj ?kvs]"
    by (simp add: for_of_def)
  have h8: "Obj ?kvs \<in> set [Obj ?kvs]"
    by simp
  have h9: "map_of ?kvs ''objectTypeAttributeId'' = Some (Num 7)"
    by simp
  have h10: "loose_eq (coerced_equal demo_host) (Num 7) (Num 7)"
    by (simp add: loose_eq_def)
  have h11: "map_of ?kvs ''objectAttributeValues'' = Some (Arr [])"
    by simp
  have t: "getLazyIQL demo_host (Str ''novalue'') (Str ''Owner'') (Str ''Server'') (Str ''10'') = Inl TypeError"
    by code_simp
  show ?thesis
    using matching_attribute_without_values_fails [OF h1 h2 h3 h4 h5 h6 h7 h8 h9 h10 h11] h1 h2 h10 t
    by simp
qed

end
